theory Spec2Isabelle
  imports Complex_Main "HOL-Library.Signed_Division" "HOL-Library.Word"
begin

section \<open>Integer arithmetic of the indexing functions\<close>

text \<open>
  Go's \<open>int\<close> is modelled by the unbounded type \<open>int\<close>; block counts and block
  numbers stay far below the 64-bit range in every run considered here. Go's \<open>/\<close> on
  integers truncates toward zero and \<open>%\<close> takes the sign of the dividend: these are
  \<open>sdiv\<close> and \<open>smod\<close>.

  \<open>math.Sqrt(float64(n))\<close> followed by \<open>math.Floor\<close> or \<open>math.Ceil\<close> and the
  conversion back to \<open>int\<close> is modelled by the exact integer square root, rounded
  down or up. For \<open>0 \<le> n < 2^52\<close> the float64 computation gives exactly this value.
  For a negative argument Go produces NaN, whose conversion to \<open>int\<close> depends on the
  platform; no function below is used there.
\<close>

fun sqrtDown :: "nat \<Rightarrow> nat \<Rightarrow> nat" where
  "sqrtDown 0 n = 0"
| "sqrtDown (Suc k) n = (if Suc k * Suc k \<le> n then Suc k else sqrtDown k n)"

definition floorSqrt :: "int \<Rightarrow> int" where
  "floorSqrt x = int (sqrtDown (nat x) (nat x))"

definition ceilSqrt :: "int \<Rightarrow> int" where
  "ceilSqrt x = (let s = floorSqrt x in if s * s = x then s else s + 1)"

text \<open>\<open>Size\<close>: the dimension computed from a block count.\<close>

definition Size :: "int \<Rightarrow> int" where
  "Size blockCount =
     (let sz = ceilSqrt blockCount
      in if sz * sz - sz < blockCount then sz + 1 else sz)"

text \<open>\<open>locateBlock\<close>: row and column of a block number, the two halves as the source
  computes them.\<close>

definition locateRow :: "int \<Rightarrow> int" where
  "locateRow blockNum =
     (if blockNum smod 2 = 0 then
        (let s = floorSqrt blockNum
         in if blockNum \<le> s * s + s then s else s + 1)
      else
        (let s = floorSqrt (blockNum + 1);
             col = (if blockNum < s * s + s then s else s + 1)
         in (blockNum - (col * col - col + 1)) sdiv 2))"

definition locateCol :: "int \<Rightarrow> int" where
  "locateCol blockNum =
     (if blockNum smod 2 = 0 then
        (let s = floorSqrt blockNum;
             row = (if blockNum \<le> s * s + s then s else s + 1)
         in (blockNum - (row * row - row + 2)) sdiv 2)
      else
        (let s = floorSqrt (blockNum + 1)
         in if blockNum < s * s + s then s else s + 1))"

definition locateBlock :: "int \<Rightarrow> int \<times> int" where
  "locateBlock blockNum = (locateRow blockNum, locateCol blockNum)"

text \<open>\<open>rowBlockNumbers\<close> and \<open>columnBlockNumbers\<close>: each of the two loops is a
  recursive function carrying the loop variables and the slice built so far.\<close>

function rowUnder :: "int \<Rightarrow> int \<Rightarrow> int \<Rightarrow> int list \<Rightarrow> int list" where
  "rowUnder rowIndex col add blocksNums =
     (if col < rowIndex
      then rowUnder rowIndex (col + 1) (add + 2)
             (blocksNums @ [rowIndex * rowIndex - rowIndex + add])
      else blocksNums)"
  by pat_completeness auto
termination
  by (relation "measure (\<lambda>(rowIndex, col, add, blocksNums). nat (rowIndex - col))") auto

function rowAbove :: "int \<Rightarrow> int \<Rightarrow> int \<Rightarrow> int list \<Rightarrow> int list" where
  "rowAbove sz col sub blocksNums =
     (if col < sz
      then rowAbove sz (col + 1) (sub + 2) (blocksNums @ [col * col + col - sub])
      else blocksNums)"
  by pat_completeness auto
termination
  by (relation "measure (\<lambda>(sz, col, sub, blocksNums). nat (sz - col))") auto

definition rowBlockNumbers :: "int \<Rightarrow> int \<Rightarrow> int list" where
  "rowBlockNumbers rowIndex blockCount =
     rowAbove (Size blockCount) (rowIndex + 1) 1 (rowUnder rowIndex 0 2 [])"

function colAbove :: "int \<Rightarrow> int \<Rightarrow> int \<Rightarrow> int list \<Rightarrow> int list" where
  "colAbove colIndex row sub blocksNums =
     (if row < colIndex
      then colAbove colIndex (row + 1) (sub - 2)
             (blocksNums @ [colIndex * colIndex + colIndex - sub])
      else blocksNums)"
  by pat_completeness auto
termination
  by (relation "measure (\<lambda>(colIndex, row, sub, blocksNums). nat (colIndex - row))") auto

function colUnder :: "int \<Rightarrow> int \<Rightarrow> int \<Rightarrow> int list \<Rightarrow> int list" where
  "colUnder sz row add blocksNums =
     (if row < sz
      then colUnder sz (row + 1) add (blocksNums @ [row * row - row + add])
      else blocksNums)"
  by pat_completeness auto
termination
  by (relation "measure (\<lambda>(sz, row, add, blocksNums). nat (sz - row))") auto

definition columnBlockNumbers :: "int \<Rightarrow> int \<Rightarrow> int list" where
  "columnBlockNumbers colIndex blockCount =
     colUnder (Size blockCount) (colIndex + 1) (2 * colIndex + 2)
       (colAbove colIndex 0 (2 * colIndex - 1) [])"

declare rowUnder.simps [simp del] rowAbove.simps [simp del]
  colAbove.simps [simp del] colUnder.simps [simp del]


section \<open>Blocks, metadata and the key-value store\<close>

text \<open>
  A Go byte slice is a list of bytes; the \<open>nil\<close> slice and the empty slice are both
  \<open>[]\<close>. The program compares slices only with \<open>reflect.DeepEqual\<close>, and every
  such comparison has on one side a freshly computed SHA-256 sum or the very same stored
  value, so it never has to tell \<open>nil\<close> from empty.

  SHA-256 is a parameter \<open>sha\<close> of every function that hashes: no property of it is
  assumed in the definitions.

  The source has two variants of the matrix. The stateful operations below follow the
  one that has \<open>IsValid\<close>, \<open>checkValidErase\<close> and \<open>EmptyBlock\<close> and passes the
  block count to \<open>rowBlockNumbers\<close>. Of the variant in \<open>blockmatrix.go\<close> the model
  has \<open>BlockNumber\<close> (as \<open>BlockNumber_byte\<close>) and the public \<open>RowBlockNumbers\<close>
  and \<open>ColumnBlockNumbers\<close>. \<open>Size\<close>, \<open>locateBlock\<close>, \<open>initInfo\<close>, \<open>New\<close>,
  \<open>GetBlockMatrixInfo\<close>, the head of \<open>AddBlock\<close> and the loops of the block-number
  lists are the same in both.
\<close>

type_synonym byte = "8 word"
type_synonym bytes = "byte list"
type_synonym hashfn = "bytes \<Rightarrow> bytes"

record Block =
  Data :: bytes
  Hash :: bytes

record BlockMatrixInfo =
  info_Size :: int
  BlockCount :: int
  Rows :: "bytes list"
  Cols :: "bytes list"

text \<open>
  The LevelDB store maps byte-string keys to byte-string values. The program writes only
  three kinds of value: the decimal text of a block number (\<open>strconv.Itoa\<close>), the JSON
  text of a \<open>Block\<close> and the JSON text of a \<open>BlockMatrixInfo\<close>. The model keeps
  the value before encoding, tagged with its kind; \<open>json.Unmarshal\<close> is the inverse of
  \<open>json.Marshal\<close> on a value of the right kind, rejects a bare number where an object
  is expected, and ignores the fields it does not know. Store operations themselves do
  not fail except \<open>Get\<close> on an absent key.
\<close>

datatype stored = Num string | BlockJSON Block | InfoJSON BlockMatrixInfo

type_synonym db = "string \<rightharpoonup> stored"

datatype error =
    ErrNotFound
  | ErrUnmarshal
  | ErrSyntax
  | ErrIndexOutOfRange
  | ErrInvalidErase
  | ErrBlockHash int
  | ErrRowHash int
  | ErrColHash int

definition calculateHash :: "hashfn \<Rightarrow> bytes \<Rightarrow> bytes" where
  "calculateHash sha bs = sha bs"

definition NewBlock :: "hashfn \<Rightarrow> bytes \<Rightarrow> Block" where
  "NewBlock sha data = \<lparr>Data = data, Hash = calculateHash sha data\<rparr>"

definition EmptyBlock :: "hashfn \<Rightarrow> Block" where
  "EmptyBlock sha = \<lparr>Data = [0], Hash = calculateHash sha [0]\<rparr>"

definition CalculateHash :: "hashfn \<Rightarrow> Block \<Rightarrow> bytes" where
  "CalculateHash sha b = calculateHash sha (Data b)"

subsection \<open>Decimal text\<close>

definition digitChar :: "nat \<Rightarrow> char" where
  "digitChar n = ''0123456789'' ! n"

fun digitsOf :: "nat \<Rightarrow> string" where
  "digitsOf n =
     (if n < 10 then [digitChar n] else digitsOf (n div 10) @ [digitChar (n mod 10)])"

declare digitsOf.simps [simp del]

definition Itoa :: "int \<Rightarrow> string" where
  "Itoa i = (if i < 0 then CHR ''-'' # digitsOf (nat (- i)) else digitsOf (nat i))"

text \<open>\<open>strconv.Atoi\<close> applied to a one-byte string, the only way the program calls it.\<close>

definition Atoi1 :: "char \<Rightarrow> error + int" where
  "Atoi1 c =
     (case map_of (zip ''0123456789'' [0, 1, 2, 3, 4, 5, 6, 7, 8, 9]) c of
        None \<Rightarrow> Inl ErrSyntax
      | Some v \<Rightarrow> Inr v)"

text \<open>The first byte of a stored value: JSON text of an object starts with a brace.\<close>

fun firstByte :: "stored \<Rightarrow> char option" where
  "firstByte (Num s) = (case s of [] \<Rightarrow> None | c # cs \<Rightarrow> Some c)"
| "firstByte (BlockJSON b) = Some CHR ''{''"
| "firstByte (InfoJSON i) = Some CHR ''{''"

fun unmarshalBlock :: "stored \<Rightarrow> error + Block" where
  "unmarshalBlock (BlockJSON b) = Inr b"
| "unmarshalBlock (Num s) = Inl ErrUnmarshal"
| "unmarshalBlock (InfoJSON i) = Inr \<lparr>Data = [], Hash = []\<rparr>"

fun unmarshalInfo :: "stored \<Rightarrow> error + BlockMatrixInfo" where
  "unmarshalInfo (InfoJSON i) = Inr i"
| "unmarshalInfo (Num s) = Inl ErrUnmarshal"
| "unmarshalInfo (BlockJSON b) =
     Inr \<lparr>info_Size = 0, BlockCount = 0, Rows = [], Cols = []\<rparr>"

subsection \<open>Opening the matrix and reading it\<close>

definition initInfo :: "db \<Rightarrow> db" where
  "initInfo d =
     d(''info'' \<mapsto> InfoJSON \<lparr>info_Size = 1, BlockCount = 0, Rows = [[]], Cols = [[]]\<rparr>)"

definition New :: "db \<Rightarrow> db" where
  "New d = (if d ''info'' = None then initInfo d else d)"

definition GetBlockMatrixInfo :: "db \<Rightarrow> (error + BlockMatrixInfo) \<times> db" where
  "GetBlockMatrixInfo d =
     (case d ''info'' of
        None \<Rightarrow>
          (let info = \<lparr>info_Size = 0, BlockCount = 0, Rows = [[]], Cols = [[]]\<rparr>
           in (Inr info, d(''info'' \<mapsto> InfoJSON info)))
      | Some v \<Rightarrow> (unmarshalInfo v, d))"

definition GetBlockByNumber :: "db \<Rightarrow> int \<Rightarrow> error + Block" where
  "GetBlockByNumber d num =
     (case d (Itoa num) of None \<Rightarrow> Inl ErrNotFound | Some v \<Rightarrow> unmarshalBlock v)"

text \<open>\<open>GetBlock\<close> uses the value found under the key as the key of a second lookup.
  For a decimal text that key is the text; for a JSON value it is the JSON text, which
  the parameter \<open>json\<close> supplies.\<close>

fun rawBytes :: "(stored \<Rightarrow> string) \<Rightarrow> stored \<Rightarrow> string" where
  "rawBytes json (Num s) = s"
| "rawBytes json v = json v"

definition GetBlock :: "(stored \<Rightarrow> string) \<Rightarrow> db \<Rightarrow> string \<Rightarrow> error + Block" where
  "GetBlock json d key =
     (case d key of
        None \<Rightarrow> Inl ErrNotFound
      | Some v \<Rightarrow>
          (case d (rawBytes json v) of
             None \<Rightarrow> Inl ErrNotFound
           | Some w \<Rightarrow> unmarshalBlock w))"

text \<open>\<open>BlockNumber\<close> parses the first byte of the stored text only.\<close>

definition BlockNumber :: "db \<Rightarrow> string \<Rightarrow> error + int" where
  "BlockNumber d key =
     (case d key of
        None \<Rightarrow> Inl ErrNotFound
      | Some v \<Rightarrow>
          (case firstByte v of
             None \<Rightarrow> Inl ErrIndexOutOfRange
           | Some c \<Rightarrow> Atoi1 c))"

text \<open>The variant of \<open>BlockNumber\<close> in \<open>blockmatrix.go\<close> converts the first byte
  to \<open>int\<close> instead of parsing it.\<close>

definition BlockNumber_byte :: "db \<Rightarrow> string \<Rightarrow> error + int" where
  "BlockNumber_byte d key =
     (case d key of
        None \<Rightarrow> Inl ErrNotFound
      | Some v \<Rightarrow>
          (case firstByte v of
             None \<Rightarrow> Inl ErrIndexOutOfRange
           | Some c \<Rightarrow> Inr (int (of_char c))))"

text \<open>The public \<open>RowBlockNumbers\<close> and \<open>ColumnBlockNumbers\<close> of
  \<open>blockmatrix.go\<close> read the block count from the stored metadata.\<close>

definition RowBlockNumbers :: "db \<Rightarrow> int \<Rightarrow> (error + int list) \<times> db" where
  "RowBlockNumbers d rowIndex =
     (case GetBlockMatrixInfo d of
        (Inl e, d') \<Rightarrow> (Inl e, d')
      | (Inr info, d') \<Rightarrow> (Inr (rowBlockNumbers rowIndex (BlockCount info)), d'))"

definition ColumnBlockNumbers :: "db \<Rightarrow> int \<Rightarrow> (error + int list) \<times> db" where
  "ColumnBlockNumbers d colIndex =
     (case GetBlockMatrixInfo d of
        (Inl e, d') \<Rightarrow> (Inl e, d')
      | (Inr info, d') \<Rightarrow> (Inr (columnBlockNumbers colIndex (BlockCount info)), d'))"

subsection \<open>Digests\<close>

text \<open>The loop over the block numbers of a row or column feeds each block's stored hash
  to the running SHA-256 state: the sum is \<open>sha\<close> of the concatenation.\<close>

fun hashBlocks :: "db \<Rightarrow> int list \<Rightarrow> bytes \<Rightarrow> error + bytes" where
  "hashBlocks d [] written = Inr written"
| "hashBlocks d (blockNum # blocks) written =
     (case GetBlockByNumber d blockNum of
        Inl e \<Rightarrow> Inl e
      | Inr block \<Rightarrow> hashBlocks d blocks (written @ Hash block))"

definition calculateRowHash :: "hashfn \<Rightarrow> db \<Rightarrow> int \<Rightarrow> int \<Rightarrow> error + bytes" where
  "calculateRowHash sha d row blockCount =
     (case hashBlocks d (rowBlockNumbers row blockCount) [] of
        Inl e \<Rightarrow> Inl e
      | Inr written \<Rightarrow> Inr (sha written))"

definition calculateColumnHash :: "hashfn \<Rightarrow> db \<Rightarrow> int \<Rightarrow> int \<Rightarrow> error + bytes" where
  "calculateColumnHash sha d col blockCount =
     (case hashBlocks d (columnBlockNumbers col blockCount) [] of
        Inl e \<Rightarrow> Inl e
      | Inr written \<Rightarrow> Inr (sha written))"

definition inRange :: "int \<Rightarrow> 'a list \<Rightarrow> bool" where
  "inRange i xs = (0 \<le> i \<and> i < int (length xs))"

text \<open>\<open>updateBlockMatrixInfo\<close> changes the metadata it is given in place and stores
  it; the model returns the changed metadata with the store. An index outside the slice
  is Go's run-time panic. Nothing is written before the last step, so a failure leaves the
  store as it was.\<close>

definition updateBlockMatrixInfo ::
  "hashfn \<Rightarrow> BlockMatrixInfo \<Rightarrow> int \<Rightarrow> db \<Rightarrow> error + (BlockMatrixInfo \<times> db)" where
  "updateBlockMatrixInfo sha info blockNum d =
     (let (row, col) = locateBlock blockNum
      in if \<not> inRange row (Rows info) then Inl ErrIndexOutOfRange
         else case calculateRowHash sha d row (BlockCount info) of
           Inl e \<Rightarrow> Inl e
         | Inr rowHash \<Rightarrow>
             (let info1 = info\<lparr>Rows := (Rows info)[nat row := rowHash]\<rparr>
              in if \<not> inRange col (Cols info1) then Inl ErrIndexOutOfRange
                 else case calculateColumnHash sha d col (BlockCount info1) of
                   Inl e \<Rightarrow> Inl e
                 | Inr colHash \<Rightarrow>
                     (let info2 = info1\<lparr>Cols := (Cols info1)[nat col := colHash]\<rparr>
                      in Inr (info2, d(''info'' \<mapsto> InfoJSON info2)))))"

subsection \<open>Growth and insertion\<close>

function putEmptyBlocks :: "hashfn \<Rightarrow> int \<Rightarrow> int \<Rightarrow> db \<Rightarrow> db" where
  "putEmptyBlocks sha i bound d =
     (if i < bound
      then putEmptyBlocks sha (i + 1) bound (d(Itoa i \<mapsto> BlockJSON (EmptyBlock sha)))
      else d)"
  by pat_completeness auto
termination
  by (relation "measure (\<lambda>(sha, i, bound, d). nat (bound - i))") auto

declare putEmptyBlocks.simps [simp del]

definition updateBlockMatrixSize ::
  "hashfn \<Rightarrow> BlockMatrixInfo \<Rightarrow> int \<Rightarrow> db \<Rightarrow> BlockMatrixInfo \<times> db" where
  "updateBlockMatrixSize sha info newSize d =
     (let numBlocksToAdd = 2 * info_Size info;
          info1 = info\<lparr>info_Size := newSize\<rparr>;
          d1 = putEmptyBlocks sha (BlockCount info1) (BlockCount info1 + numBlocksToAdd) d
      in (info1\<lparr>Rows := Rows info1 @ [[]], Cols := Cols info1 @ [[]]\<rparr>, d1))"

text \<open>\<open>AddBlock\<close> returns the error, if any, and the store as the call leaves it:
  the writes made before a failure stay.\<close>

definition AddBlock :: "hashfn \<Rightarrow> string \<Rightarrow> bytes \<Rightarrow> db \<Rightarrow> error option \<times> db" where
  "AddBlock sha key data d =
     (case GetBlockMatrixInfo d of
        (Inl e, d0) \<Rightarrow> (Some e, d0)
      | (Inr info0, d0) \<Rightarrow>
          (let info1 = info0\<lparr>BlockCount := BlockCount info0 + 1\<rparr>;
               newSize = Size (BlockCount info1);
               (info2, d1) =
                 (if newSize > info_Size info1
                  then updateBlockMatrixSize sha info1 newSize d0
                  else (info1, d0));
               blockNum = BlockCount info2;
               blockNumBytes = Itoa blockNum;
               block = NewBlock sha data;
               d2 = d1(key \<mapsto> Num blockNumBytes);
               d3 = d2(blockNumBytes \<mapsto> BlockJSON block)
           in case updateBlockMatrixInfo sha info2 blockNum d3 of
                Inl e \<Rightarrow> (Some e, d3)
              | Inr (info3, d4) \<Rightarrow> (None, d4)))"

subsection \<open>Redaction\<close>

text \<open>The loop of \<open>checkValidErase\<close>, with its two counters. The column comparison
  is in the \<open>else\<close> branch of the row comparison.\<close>

function checkLoop ::
  "BlockMatrixInfo \<Rightarrow> bytes list \<Rightarrow> bytes list \<Rightarrow> int \<Rightarrow> int \<Rightarrow> int \<Rightarrow> error + (int \<times> int)"
  where
  "checkLoop info oldRowHashes oldColHashes i numRowChanged numColChanged =
     (if i < info_Size info then
        (if \<not> (inRange i oldRowHashes \<and> inRange i (Rows info)) then Inl ErrIndexOutOfRange
         else if oldRowHashes ! nat i \<noteq> Rows info ! nat i
           then checkLoop info oldRowHashes oldColHashes (i + 1)
                  (numRowChanged + 1) numColChanged
         else if \<not> (inRange i oldColHashes \<and> inRange i (Cols info))
           then Inl ErrIndexOutOfRange
         else if oldColHashes ! nat i \<noteq> Cols info ! nat i
           then checkLoop info oldRowHashes oldColHashes (i + 1)
                  numRowChanged (numColChanged + 1)
         else checkLoop info oldRowHashes oldColHashes (i + 1) numRowChanged numColChanged)
      else Inr (numRowChanged, numColChanged))"
  by pat_completeness auto
termination
  by (relation "measure (\<lambda>(info, oldR, oldC, i, nr, nc). nat (info_Size info - i))") auto

declare checkLoop.simps [simp del]

definition checkValidErase ::
  "BlockMatrixInfo \<Rightarrow> bytes list \<Rightarrow> bytes list \<Rightarrow> error + bool" where
  "checkValidErase info oldRowHashes oldColHashes =
     (case checkLoop info oldRowHashes oldColHashes 0 0 0 of
        Inl e \<Rightarrow> Inl e
      | Inr (numRowChanged, numColChanged) \<Rightarrow>
          Inr (numRowChanged = 1 \<and> numColChanged = 1))"

definition EraseBlock :: "hashfn \<Rightarrow> string \<Rightarrow> db \<Rightarrow> error option \<times> db" where
  "EraseBlock sha key d =
     (case BlockNumber d key of
        Inl e \<Rightarrow> (Some e, d)
      | Inr blockNum \<Rightarrow>
          (let d1 = d(key := None);
               d2 = d1(Itoa blockNum \<mapsto> BlockJSON (EmptyBlock sha))
           in case GetBlockMatrixInfo d2 of
                (Inl e, d3) \<Rightarrow> (Some e, d3)
              | (Inr info, d3) \<Rightarrow>
                  (let oldRowHashes = Rows info;
                       oldColHashes = Cols info
                   in case updateBlockMatrixInfo sha info blockNum d3 of
                        Inl e \<Rightarrow> (Some e, d3)
                      | Inr (info', d4) \<Rightarrow>
                          (case checkValidErase info' oldRowHashes oldColHashes of
                             Inl e \<Rightarrow> (Some e, d4)
                           | Inr ok \<Rightarrow>
                               if \<not> ok then (Some ErrInvalidErase, d4)
                               else (None, d4)))))"

subsection \<open>Verification\<close>

text \<open>The three loops of \<open>IsValid\<close>. Each returns the first error, as the source
  does; the comparisons are those of the source: the error is returned when the two
  hashes are equal.\<close>

function checkBlockHashes :: "hashfn \<Rightarrow> db \<Rightarrow> int \<Rightarrow> int \<Rightarrow> error option" where
  "checkBlockHashes sha d i blockCount =
     (if i \<le> blockCount then
        (case GetBlockByNumber d i of
           Inl e \<Rightarrow> Some e
         | Inr block \<Rightarrow>
             if Hash block = CalculateHash sha block then Some (ErrBlockHash i)
             else checkBlockHashes sha d (i + 1) blockCount)
      else None)"
  by pat_completeness auto
termination
  by (relation "measure (\<lambda>(sha, d, i, blockCount). nat (blockCount + 1 - i))") auto

function checkRowHashes ::
  "hashfn \<Rightarrow> db \<Rightarrow> BlockMatrixInfo \<Rightarrow> int \<Rightarrow> int \<Rightarrow> error option" where
  "checkRowHashes sha d info i sz =
     (if i < sz then
        (case calculateRowHash sha d i (BlockCount info) of
           Inl e \<Rightarrow> Some e
         | Inr hash \<Rightarrow>
             if \<not> inRange i (Rows info) then Some ErrIndexOutOfRange
             else if Rows info ! nat i = hash then Some (ErrRowHash i)
             else checkRowHashes sha d info (i + 1) sz)
      else None)"
  by pat_completeness auto
termination
  by (relation "measure (\<lambda>(sha, d, info, i, sz). nat (sz - i))") auto

function checkColHashes ::
  "hashfn \<Rightarrow> db \<Rightarrow> BlockMatrixInfo \<Rightarrow> int \<Rightarrow> int \<Rightarrow> error option" where
  "checkColHashes sha d info i sz =
     (if i < sz then
        (case calculateColumnHash sha d i (BlockCount info) of
           Inl e \<Rightarrow> Some e
         | Inr hash \<Rightarrow>
             if \<not> inRange i (Cols info) then Some ErrIndexOutOfRange
             else if Cols info ! nat i = hash then Some (ErrColHash i)
             else checkColHashes sha d info (i + 1) sz)
      else None)"
  by pat_completeness auto
termination
  by (relation "measure (\<lambda>(sha, d, info, i, sz). nat (sz - i))") auto

declare checkBlockHashes.simps [simp del] checkRowHashes.simps [simp del]
  checkColHashes.simps [simp del]

text \<open>\<open>IsValid\<close> returns \<open>(true, nil)\<close> or \<open>(false, err)\<close>: the model returns the
  error, \<open>None\<close> standing for \<open>(true, nil)\<close>, and the store (reading the metadata
  creates it when absent).\<close>

definition IsValid :: "hashfn \<Rightarrow> db \<Rightarrow> error option \<times> db" where
  "IsValid sha d =
     (case GetBlockMatrixInfo d of
        (Inl e, d') \<Rightarrow> (Some e, d')
      | (Inr info, d') \<Rightarrow>
          (case checkBlockHashes sha d' 1 (BlockCount info) of
             Some e \<Rightarrow> (Some e, d')
           | None \<Rightarrow>
               (let sz = Size (BlockCount info)
                in case checkRowHashes sha d' info 0 sz of
                     Some e \<Rightarrow> (Some e, d')
                   | None \<Rightarrow>
                       (case checkColHashes sha d' info 0 sz of
                          Some e \<Rightarrow> (Some e, d')
                        | None \<Rightarrow> (None, d')))))"


section \<open>Scenarios and auxiliary notions used in the statements\<close>

text \<open>\<open>createTestBlocks\<close> of the test file: \<open>num\<close> insertions with the keys
  \<open>key0\<close>, \<open>key1\<close>, ... and the one-byte payload \<open>byte(i)\<close>, stopping at the first
  error.\<close>

function createTestBlocksFrom ::
  "hashfn \<Rightarrow> int \<Rightarrow> int \<Rightarrow> db \<Rightarrow> error option \<times> db" where
  "createTestBlocksFrom sha i num d =
     (if i < num then
        (case AddBlock sha (''key'' @ Itoa i) [word_of_int i] d of
           (Some e, d') \<Rightarrow> (Some e, d')
         | (None, d') \<Rightarrow> createTestBlocksFrom sha (i + 1) num d')
      else (None, d))"
  by pat_completeness auto
termination
  by (relation "measure (\<lambda>(sha, i, num, d). nat (num - i))") auto

declare createTestBlocksFrom.simps [simp del]

definition createTestBlocks :: "hashfn \<Rightarrow> int \<Rightarrow> db \<Rightarrow> error option \<times> db" where
  "createTestBlocks sha num d = createTestBlocksFrom sha 0 num d"

text \<open>A sequence of \<open>AddBlock\<close> calls with given keys and payloads, each applied to
  the store the previous one left.\<close>

fun addBlocks :: "hashfn \<Rightarrow> (string \<times> bytes) list \<Rightarrow> db \<Rightarrow> db" where
  "addBlocks sha [] d = d"
| "addBlocks sha ((key, data) # rest) d = addBlocks sha rest (snd (AddBlock sha key data d))"

text \<open>The stores reachable from the freshly initialised matrix by \<open>AddBlock\<close> calls,
  whether they succeed or not.\<close>

inductive reachable :: "hashfn \<Rightarrow> db \<Rightarrow> bool" for sha :: hashfn where
  fresh: "reachable sha (New Map.empty)"
| add: "reachable sha d \<Longrightarrow> reachable sha (snd (AddBlock sha key data d))"

text \<open>The block count that \<open>GetBlockMatrixInfo\<close> reports for a store.\<close>

definition storedBlockCount :: "db \<Rightarrow> error + int" where
  "storedBlockCount d = map_sum id BlockCount (fst (GetBlockMatrixInfo d))"

text \<open>The off-diagonal cells of the grid of dimension \<open>d\<close>, and the number of the block
  in a cell: the closed form of the lists that \<open>rowBlockNumbers\<close> and
  \<open>columnBlockNumbers\<close> build, used as the inverse of \<open>locateBlock\<close> in the proofs.\<close>

definition offDiagonal :: "int \<Rightarrow> (int \<times> int) set" where
  "offDiagonal d = {(i, j). 0 \<le> i \<and> i < d \<and> 0 \<le> j \<and> j < d \<and> i \<noteq> j}"

definition cellNumber :: "int \<times> int \<Rightarrow> int" where
  "cellNumber p = (case p of (i, j) \<Rightarrow>
     if j < i then i * i - i + 2 + 2 * j else j * j - j + 1 + 2 * i)"

text \<open>A stand-in for SHA-256 in closed evaluations: the input behind its length. It is
  injective, never empty, and on the one-byte payloads of the scenarios all block hashes
  have the same length, as SHA-256 sums do.\<close>

definition lengthPrefixed :: hashfn where
  "lengthPrefixed bs = of_nat (length bs) # bs"

definition tenInserts :: "(string \<times> bytes) list" where
  "tenInserts =
     [(''a'', [1]), (''b'', [2]), (''c'', [3]), (''d'', [4]), (''e'', [5]),
      (''f'', [6]), (''g'', [7]), (''h'', [8]), (''i'', [9]), (''j'', [10])]"

text \<open>The spec's dimension of a block count: the smallest \<open>n\<close>, at least 1, with
  \<open>n\<^sup>2 - n \<ge> blockCount\<close>.\<close>

definition smallestDimension :: "int \<Rightarrow> int \<Rightarrow> bool" where
  "smallestDimension n blockCount =
     (1 \<le> n \<and> blockCount \<le> n * n - n \<and> (\<forall>m\<in>{1 ..< n}. m * m - m < blockCount))"

text \<open>The metadata that \<open>AddBlock\<close> hands to \<open>updateBlockMatrixInfo\<close>: the block
  count incremented and, when \<open>Size\<close> exceeds the stored size, the size replaced and one
  empty digest appended to each axis.\<close>

definition grown :: "BlockMatrixInfo \<Rightarrow> BlockMatrixInfo" where
  "grown info0 =
     (let info1 = info0\<lparr>BlockCount := BlockCount info0 + 1\<rparr>
      in if Size (BlockCount info1) > info_Size info1
         then info1\<lparr>info_Size := Size (BlockCount info1),
                    Rows := Rows info1 @ [[]], Cols := Cols info1 @ [[]]\<rparr>
         else info1)"

text \<open>The invariant of the metadata record, and of a store: the metadata key holds
  either well-formed metadata or, after a failed insertion under the key \<open>info\<close>, a
  decimal text.\<close>

definition infoOK :: "BlockMatrixInfo \<Rightarrow> bool" where
  "infoOK info =
     (0 \<le> BlockCount info \<and> smallestDimension (info_Size info) (BlockCount info))"

definition storeOK :: "db \<Rightarrow> bool" where
  "storeOK d =
     (case d ''info'' of
        Some (InfoJSON info) \<Rightarrow> infoOK info
      | Some (Num s) \<Rightarrow> True
      | Some (BlockJSON b) \<Rightarrow> False
      | None \<Rightarrow> False)"

section \<open>Properties of the integer square root\<close>


lemma sqrtDown_le: "sqrtDown k n \<le> k"
  by (induction k) auto

lemma sqrtDown_sq_le: "sqrtDown k n * sqrtDown k n \<le> n"
  by (induction k) auto

lemma sqrtDown_above: "sqrtDown k n < m \<Longrightarrow> m \<le> k \<Longrightarrow> n < m * m"
proof (induction k)
  case 0
  then show ?case by simp
next
  case (Suc k)
  show ?case
  proof (cases "Suc k * Suc k \<le> n")
    case True
    with Suc.prems show ?thesis by simp
  next
    case False
    show ?thesis
    proof (cases "m = Suc k")
      case True
      with False show ?thesis by simp
    next
      case neq: False
      with Suc.prems False have "sqrtDown k n < m" "m \<le> k" by auto
      then show ?thesis by (rule Suc.IH)
    qed
  qed
qed

lemma sqrtDown_next: "n < (sqrtDown n n + 1) * (sqrtDown n n + 1)"
proof (cases "sqrtDown n n + 1 \<le> n")
  case True
  then show ?thesis by (intro sqrtDown_above) auto
next
  case False
  then have "n < sqrtDown n n + 1" by simp
  also have "\<dots> \<le> (sqrtDown n n + 1) * (sqrtDown n n + 1)" by simp
  finally show ?thesis .
qed

lemma floorSqrt_nonneg: "0 \<le> floorSqrt x"
  by (simp add: floorSqrt_def)

lemma floorSqrt_sq_le: "0 \<le> x \<Longrightarrow> floorSqrt x * floorSqrt x \<le> x"
proof -
  assume x: "0 \<le> x"
  have "int (sqrtDown (nat x) (nat x) * sqrtDown (nat x) (nat x)) \<le> int (nat x)"
    using sqrtDown_sq_le [of "nat x" "nat x"] by (simp only: of_nat_le_iff)
  with x show ?thesis by (simp add: floorSqrt_def)
qed

lemma floorSqrt_less: "x < (floorSqrt x + 1) * (floorSqrt x + 1)"
proof (cases "0 \<le> x")
  case True
  have "int (nat x) < int ((sqrtDown (nat x) (nat x) + 1) * (sqrtDown (nat x) (nat x) + 1))"
    using sqrtDown_next [of "nat x"] by (simp only: of_nat_less_iff)
  with True show ?thesis by (simp add: floorSqrt_def algebra_simps)
next
  case False
  have "0 < (floorSqrt x + 1) * (floorSqrt x + 1)"
    using floorSqrt_nonneg [of x] by (intro mult_pos_pos) auto
  with False show ?thesis by linarith
qed

lemma sq_mono_int: "0 \<le> a \<Longrightarrow> a \<le> b \<Longrightarrow> a * a \<le> b * (b::int)"
  by (rule mult_mono) auto

lemma floorSqrt_unique:
  assumes "0 \<le> s" "s * s \<le> x" "x < (s + 1) * (s + 1)"
  shows "floorSqrt x = s"
proof -
  let ?f = "floorSqrt x"
  have x0: "0 \<le> x" using assms(1,2) by (meson mult_nonneg_nonneg order_trans)
  have f: "0 \<le> ?f" "?f * ?f \<le> x" "x < (?f + 1) * (?f + 1)"
    using floorSqrt_nonneg floorSqrt_sq_le [OF x0] floorSqrt_less by auto
  have "\<not> ?f < s"
  proof
    assume "?f < s"
    then have "(?f + 1) * (?f + 1) \<le> s * s" using f(1) by (intro sq_mono_int) auto
    with f(3) assms(2) show False by linarith
  qed
  moreover have "\<not> s < ?f"
  proof
    assume "s < ?f"
    then have "(s + 1) * (s + 1) \<le> ?f * ?f" using assms(1) by (intro sq_mono_int) auto
    with f(2) assms(3) show False by linarith
  qed
  ultimately show ?thesis by linarith
qed

lemma floorSqrt_real: "0 \<le> x \<Longrightarrow> floorSqrt x = \<lfloor>sqrt (real_of_int x)\<rfloor>"
proof -
  assume x: "0 \<le> x"
  let ?f = "floorSqrt x"
  have f: "0 \<le> ?f" "?f * ?f \<le> x" "x < (?f + 1) * (?f + 1)"
    using floorSqrt_nonneg floorSqrt_sq_le [OF x] floorSqrt_less by auto
  have a: "real_of_int ?f \<le> sqrt (real_of_int x)"
  proof (rule real_le_rsqrt)
    have "real_of_int (?f * ?f) \<le> real_of_int x" using f(2) by (simp only: of_int_le_iff)
    then show "(real_of_int ?f)\<^sup>2 \<le> real_of_int x" by (simp add: power2_eq_square)
  qed
  have b: "sqrt (real_of_int x) < real_of_int ?f + 1"
  proof (rule real_less_lsqrt)
    show "0 \<le> real_of_int ?f + 1" using f(1) by simp
    have "real_of_int x < real_of_int ((?f + 1) * (?f + 1))" using f(3) by (simp only: of_int_less_iff)
    then show "real_of_int x < (real_of_int ?f + 1)\<^sup>2" by (simp add: power2_eq_square)
  qed
  show ?thesis using a b by (intro floor_unique [symmetric])
qed



section \<open>Placement: \<open>locateBlock\<close> on the grid\<close>


lemma smod_2_even: "(n smod 2 = 0) = even (n::int)"
  unfolding signed_modulo_int_def sgn_if abs_if by presburger

lemma sdiv_2_nonneg: "0 \<le> a \<Longrightarrow> a sdiv 2 = a div (2::int)"
  by (simp add: signed_divide_int_def sgn_if)

lemma even_pronic: "even (r * r - (r::int))"
  by simp


lemma floorSqrt_shell:
  assumes "1 \<le> r" "r * r - r < x" "x \<le> r * r + r"
  shows "floorSqrt x = (if r * r \<le> x then r else r - 1)"
proof (cases "r * r \<le> x")
  case True
  have "floorSqrt x = r"
    using assms True by (intro floorSqrt_unique) (auto simp: algebra_simps)
  with True show ?thesis by simp
next
  case False
  have "floorSqrt x = r - 1"
    using assms False by (intro floorSqrt_unique) (auto simp: algebra_simps)
  with False show ?thesis by simp
qed

lemma locate_under:
  assumes "0 \<le> j" "j < r"
  shows "locateBlock (r * r - r + 2 + 2 * j) = (r, j)"
proof -
  let ?n = "r * r - r + 2 + 2 * j"
  have r: "1 \<le> r" using assms by simp
  have ev: "even ?n" by simp
  define s where "s = floorSqrt ?n"
  have "s = (if r * r \<le> ?n then r else r - 1)"
    unfolding s_def using assms by (intro floorSqrt_shell) auto
  then have "(if ?n \<le> s * s + s then s else s + 1) = r"
    using assms by (auto simp: algebra_simps split: if_splits)
  then have row: "(let s = floorSqrt ?n in if ?n \<le> s * s + s then s else s + 1) = r"
    unfolding s_def Let_def .
  have "(?n - (r * r - r + 2)) sdiv 2 = j"
    using assms by (simp add: sdiv_2_nonneg)
  then show ?thesis
    using row ev unfolding locateBlock_def locateRow_def locateCol_def smod_2_even
    by (simp add: Let_def)
qed

lemma locate_above:
  assumes "0 \<le> i" "i < c"
  shows "locateBlock (c * c - c + 1 + 2 * i) = (i, c)"
proof -
  let ?n = "c * c - c + 1 + 2 * i"
  have od: "odd ?n" by simp
  define s where "s = floorSqrt (?n + 1)"
  have "s = (if c * c \<le> ?n + 1 then c else c - 1)"
    unfolding s_def using assms by (intro floorSqrt_shell) auto
  then have "(if ?n < s * s + s then s else s + 1) = c"
    using assms by (auto simp: algebra_simps split: if_splits)
  then have col: "(let s = floorSqrt (?n + 1) in if ?n < s * s + s then s else s + 1) = c"
    unfolding s_def Let_def .
  have "(?n - (c * c - c + 1)) sdiv 2 = i"
    using assms by (simp add: sdiv_2_nonneg)
  then show ?thesis
    using col od unfolding locateBlock_def locateRow_def locateCol_def smod_2_even
    by (simp add: Let_def)
qed

lemma locate_cellNumber:
  assumes "0 \<le> i" "0 \<le> j" "i \<noteq> j"
  shows "locateBlock (cellNumber (i, j)) = (i, j)"
  using assms locate_under [of j i] locate_above [of i j]
  by (auto simp: cellNumber_def)


lemma pronic_mono: "1 \<le> a \<Longrightarrow> a \<le> b \<Longrightarrow> a * a - a \<le> b * b - (b::int)"
proof -
  assume "1 \<le> a" "a \<le> b"
  then have "a * (a - 1) \<le> b * (b - 1)" by (intro mult_mono) auto
  then show ?thesis by (simp add: algebra_simps)
qed

lemma even_shell:
  assumes "even m" "2 \<le> (m::int)"
  shows "\<exists>r j. 0 \<le> j \<and> j < r \<and> m = r * r - r + 2 + 2 * j"
proof -
  define s where "s = floorSqrt m"
  have s: "0 \<le> s" "s * s \<le> m" "m < (s + 1) * (s + 1)"
    unfolding s_def using assms floorSqrt_nonneg floorSqrt_sq_le [of m] floorSqrt_less [of m]
    by auto
  have s1: "1 \<le> s"
  proof (rule ccontr)
    assume "\<not> 1 \<le> s"
    with s(1) have "s = 0" by simp
    with s(3) assms(2) show False by simp
  qed
  have evs: "even (s * s - s)" "even (s * s + s)" by simp_all
  show ?thesis
  proof (cases "m \<le> s * s + s")
    case True
    have lo: "s * s - s + 2 \<le> m"
    proof (cases "s = 1")
      case True
      with assms(2) show ?thesis by simp
    next
      case False
      with s1 have "2 \<le> s" by simp
      with s(2) show ?thesis by linarith
    qed
    define j where "j = (m - (s * s - s + 2)) div 2"
    have "even (m - (s * s - s + 2))" using assms(1) evs by simp
    then have "m - (s * s - s + 2) = 2 * j" unfolding j_def by simp
    then have "m = s * s - s + 2 + 2 * j" by simp
    moreover have "0 \<le> j" "j < s" using lo True unfolding j_def by auto
    ultimately show ?thesis by blast
  next
    case False
    have "even (m - (s * s + s))" using assms(1) evs by simp
    with False have lo: "s * s + s + 2 \<le> m" by presburger
    define j where "j = (m - (s * s + s + 2)) div 2"
    have "even (m - (s * s + s + 2))" using assms(1) evs by simp
    then have j2: "m - (s * s + s + 2) = 2 * j" unfolding j_def by simp
    then have "m = (s + 1) * (s + 1) - (s + 1) + 2 + 2 * j" by (simp add: algebra_simps)
    moreover have "0 \<le> j" using lo unfolding j_def by auto
    moreover have "(s + 1) * (s + 1) = s * s + 2 * s + 1" by (simp add: algebra_simps)
    then have "j < s + 1" using s(1,3) j2 by linarith
    ultimately show ?thesis by blast
  qed
qed

lemma cellNumber_surj:
  assumes "1 \<le> n"
  shows "\<exists>i j. 0 \<le> i \<and> 0 \<le> j \<and> i \<noteq> j \<and> n = cellNumber (i, j)"
proof (cases "even n")
  case True
  with assms have "2 \<le> n" by presburger
  from even_shell [OF True this] obtain r j
    where "0 \<le> j" "j < r" "n = r * r - r + 2 + 2 * j" by blast
  then have "0 \<le> r \<and> 0 \<le> j \<and> r \<noteq> j \<and> n = cellNumber (r, j)"
    by (simp add: cellNumber_def)
  then show ?thesis by blast
next
  case False
  then have "even (n + 1)" by simp
  moreover have "2 \<le> n + 1" using assms by simp
  ultimately obtain c i where "0 \<le> i" "i < c" "n + 1 = c * c - c + 2 + 2 * i"
    using even_shell by blast
  then have "0 \<le> i \<and> 0 \<le> c \<and> i \<noteq> c \<and> n = cellNumber (i, c)"
    by (simp add: cellNumber_def)
  then show ?thesis by blast
qed

lemma cellNumber_range:
  assumes "0 \<le> i" "0 \<le> j" "i \<noteq> j"
  shows "max i j * max i j - max i j < cellNumber (i, j)"
    and "cellNumber (i, j) \<le> max i j * max i j + max i j"
  using assms by (auto simp: cellNumber_def max_def)

lemma cellNumber_in_grid:
  assumes "0 \<le> i" "0 \<le> j" "i \<noteq> j" "i < d" "j < d"
  shows "1 \<le> cellNumber (i, j)" "cellNumber (i, j) \<le> d * d - d"
proof -
  let ?m = "max i j"
  have m: "1 \<le> ?m + 1" "?m + 1 \<le> d" using assms by auto
  have "0 \<le> ?m * ?m - ?m" using pronic_mono [of 1 ?m] assms by (auto simp: max_def)
  with cellNumber_range(1) [OF assms(1-3)] show "1 \<le> cellNumber (i, j)" by linarith
  have "(?m + 1) * (?m + 1) - (?m + 1) \<le> d * d - d" using m by (rule pronic_mono)
  then have "?m * ?m + ?m \<le> d * d - d" by (simp add: algebra_simps)
  with cellNumber_range(2) [OF assms(1-3)] show "cellNumber (i, j) \<le> d * d - d" by linarith
qed

lemma cellNumber_bound:
  assumes "0 \<le> i" "0 \<le> j" "i \<noteq> j" "cellNumber (i, j) \<le> d * d - d" "1 \<le> d"
  shows "i < d \<and> j < d"
proof (rule ccontr)
  let ?m = "max i j"
  assume "\<not> (i < d \<and> j < d)"
  then have "d \<le> ?m" by auto
  with assms(5) have "d * d - d \<le> ?m * ?m - ?m" by (intro pronic_mono) auto
  with cellNumber_range(1) [OF assms(1-3)] assms(4) show False by linarith
qed


lemma locateBlock_bij_betw:
  assumes "1 \<le> d"
  shows "bij_betw locateBlock {1 .. d * d - d} (offDiagonal d)"
proof (rule bij_betw_byWitness [where f' = cellNumber])
  show "\<forall>n\<in>{1 .. d * d - d}. cellNumber (locateBlock n) = n"
  proof
    fix n assume "n \<in> {1 .. d * d - d}"
    then have "1 \<le> n" by simp
    then obtain i j where c: "0 \<le> i" "0 \<le> j" "i \<noteq> j" "n = cellNumber (i, j)"
      using cellNumber_surj by blast
    then show "cellNumber (locateBlock n) = n" by (simp add: locate_cellNumber)
  qed
  show "\<forall>p\<in>offDiagonal d. locateBlock (cellNumber p) = p"
    by (auto simp: offDiagonal_def locate_cellNumber)
  show "locateBlock ` {1 .. d * d - d} \<subseteq> offDiagonal d"
  proof
    fix p assume "p \<in> locateBlock ` {1 .. d * d - d}"
    then obtain n where n: "1 \<le> n" "n \<le> d * d - d" "p = locateBlock n" by auto
    then obtain i j where c: "0 \<le> i" "0 \<le> j" "i \<noteq> j" "n = cellNumber (i, j)"
      using cellNumber_surj by blast
    then have "p = (i, j)" using n(3) by (simp add: locate_cellNumber)
    moreover have "i < d \<and> j < d" using cellNumber_bound [OF c(1-3) _ assms] n(2) c(4) by simp
    ultimately show "p \<in> offDiagonal d" using c by (simp add: offDiagonal_def)
  qed
  show "cellNumber ` offDiagonal d \<subseteq> {1 .. d * d - d}"
    using cellNumber_in_grid by (auto simp: offDiagonal_def)
qed



section \<open>Claims about placement and block-number lists\<close>


text \<open>
  Claim C1. For every dimension \<open>d \<ge> 1\<close>, \<open>locateBlock\<close> maps the block numbers
  \<open>1 .. d\<^sup>2 - d\<close> one-to-one onto the off-diagonal cells of the grid of dimension
  \<open>d\<close>: no number of the range lands on the diagonal or outside the grid, no two land
  on the same cell, and every off-diagonal cell is hit. The result depends on the block
  number alone: \<open>locateBlock\<close> is a function of it.
\<close>

theorem locateBlock_bijection:
  assumes "1 \<le> d"
  shows "bij_betw locateBlock {1 .. d * d - d} (offDiagonal d)"
  using assms by (rule locateBlock_bij_betw)

theorem locateBlock_bijection_witness:
  "(1::int) \<le> 3 \<and> bij_betw locateBlock {1 .. 6} (offDiagonal 3)"
  using locateBlock_bijection [of 3] by simp

text \<open>
  Claim C9, as the spec states it: blocks 1 to 4 fill the off-diagonal cells of the 2 by 2
  grid and block 5 starts the shell of the 3 by 3 grid. The code places block 3 at row 0,
  column 2, outside the 2 by 2 grid.
\<close>

theorem block_3_outside_2x2_grid:
  "locateBlock 3 = (0, 2) \<and> locateBlock 3 \<notin> offDiagonal 2"
proof -
  have "locateBlock 3 = (0, 2)" by code_simp
  then show ?thesis by (simp add: offDiagonal_def)
qed

text \<open>
  Claim C9, amended: block 1 is at row 0, column 1; blocks 1 and 2 fill the off-diagonal
  cells of the 2 by 2 grid; block 3 is the first block of the shell of the 3 by 3 grid,
  which blocks 3 to 6 fill.
\<close>

theorem first_shells_placement:
  "locateBlock 1 = (0, 1) \<and> locateBlock 2 = (1, 0)
   \<and> locateBlock ` {1 .. 2} = offDiagonal 2
   \<and> locateBlock 3 = (0, 2) \<and> locateBlock 4 = (2, 0)
   \<and> locateBlock 5 = (1, 2) \<and> locateBlock 6 = (2, 1)
   \<and> locateBlock ` {3 .. 6} = offDiagonal 3 - offDiagonal 2"
proof -
  have b2: "bij_betw locateBlock {1 .. 2} (offDiagonal 2)"
    using locateBlock_bij_betw [of 2] by simp
  have b3: "bij_betw locateBlock {1 .. 6} (offDiagonal 3)"
    using locateBlock_bij_betw [of 3] by simp
  have i2: "locateBlock ` {1 .. 2} = offDiagonal 2"
    using b2 by (rule bij_betw_imp_surj_on)
  have i3: "locateBlock ` {1 .. 6} = offDiagonal 3"
    using b3 by (rule bij_betw_imp_surj_on)
  have "{3 .. 6} = {1 .. 6} - {1 .. (2::int)}" by auto
  then have "locateBlock ` {3 .. 6} = locateBlock ` ({1 .. 6} - {1 .. 2})" by simp
  also have "\<dots> = locateBlock ` {1 .. 6} - locateBlock ` {1 .. 2}"
    using bij_betw_imp_inj_on [OF b3] by (intro inj_on_image_set_diff) auto
  finally have shell: "locateBlock ` {3 .. 6} = offDiagonal 3 - offDiagonal 2"
    by (simp only: i2 i3)
  have "locateBlock 1 = (0, 1)" "locateBlock 2 = (1, 0)" "locateBlock 3 = (0, 2)"
    "locateBlock 4 = (2, 0)" "locateBlock 5 = (1, 2)" "locateBlock 6 = (2, 1)"
    by code_simp+
  with i2 shell show ?thesis by simp
qed

lemma RowBlockNumbers_stored:
  "storedBlockCount d = Inr bc \<Longrightarrow> fst (RowBlockNumbers d r) = Inr (rowBlockNumbers r bc)"
  by (cases "GetBlockMatrixInfo d"; cases "fst (GetBlockMatrixInfo d)")
     (auto simp: storedBlockCount_def RowBlockNumbers_def)

lemma ColumnBlockNumbers_stored:
  "storedBlockCount d = Inr bc \<Longrightarrow>
     fst (ColumnBlockNumbers d c) = Inr (columnBlockNumbers c bc)"
  by (cases "GetBlockMatrixInfo d"; cases "fst (GetBlockMatrixInfo d)")
     (auto simp: storedBlockCount_def ColumnBlockNumbers_def)

text \<open>
  Claim C2. On a store whose metadata reports 5 blocks, \<open>RowBlockNumbers 2\<close> is
  \<open>[4, 6]\<close> and \<open>ColumnBlockNumbers 1\<close> is \<open>[1, 6]\<close>; on one that reports 25
  blocks, \<open>RowBlockNumbers 0\<close> is \<open>[1, 3, 7, 13, 21]\<close> and \<open>ColumnBlockNumbers 3\<close>
  is \<open>[7, 9, 11, 20, 28]\<close>. Two block counts with the same \<open>Size\<close> give the same
  lists.
\<close>

theorem block_number_lists:
  assumes "storedBlockCount d5 = Inr 5" and "storedBlockCount d25 = Inr 25"
  shows "fst (RowBlockNumbers d5 2) = Inr [4, 6]
       \<and> fst (ColumnBlockNumbers d5 1) = Inr [1, 6]
       \<and> fst (RowBlockNumbers d25 0) = Inr [1, 3, 7, 13, 21]
       \<and> fst (ColumnBlockNumbers d25 3) = Inr [7, 9, 11, 20, 28]
       \<and> (\<forall>k bc bc'. Size bc = Size bc' \<longrightarrow>
             rowBlockNumbers k bc = rowBlockNumbers k bc'
           \<and> columnBlockNumbers k bc = columnBlockNumbers k bc')"
proof -
  have "rowBlockNumbers 2 5 = [4, 6]" "columnBlockNumbers 1 5 = [1, 6]"
    "rowBlockNumbers 0 25 = [1, 3, 7, 13, 21]"
    "columnBlockNumbers 3 25 = [7, 9, 11, 20, 28]"
    by code_simp+
  then show ?thesis
    using RowBlockNumbers_stored [OF assms(1)] ColumnBlockNumbers_stored [OF assms(1)]
      RowBlockNumbers_stored [OF assms(2)] ColumnBlockNumbers_stored [OF assms(2)]
    by (simp add: rowBlockNumbers_def columnBlockNumbers_def)
qed

theorem block_number_lists_witness:
  "storedBlockCount (snd (createTestBlocks lengthPrefixed 5 (New Map.empty))) = Inr 5
   \<and> storedBlockCount
        (snd (createTestBlocks lengthPrefixed 20
               (snd (createTestBlocks lengthPrefixed 5 (New Map.empty))))) = Inr 25
   \<and> fst (RowBlockNumbers (snd (createTestBlocks lengthPrefixed 5 (New Map.empty))) 2)
       = Inr [4, 6]
   \<and> fst (ColumnBlockNumbers
            (snd (createTestBlocks lengthPrefixed 20
                   (snd (createTestBlocks lengthPrefixed 5 (New Map.empty))))) 3)
       = Inr [7, 9, 11, 20, 28]
   \<and> Size 5 = Size 6 \<and> rowBlockNumbers 2 5 = rowBlockNumbers 2 6"
proof -
  have h5: "storedBlockCount (snd (createTestBlocks lengthPrefixed 5 (New Map.empty))) = Inr 5"
    by code_simp
  have h25: "storedBlockCount
        (snd (createTestBlocks lengthPrefixed 20
               (snd (createTestBlocks lengthPrefixed 5 (New Map.empty))))) = Inr 25"
    by code_simp
  have s: "Size 5 = Size 6" by code_simp
  note c = block_number_lists [OF h5 h25]
  from c have r5: "fst (RowBlockNumbers (snd (createTestBlocks lengthPrefixed 5 (New Map.empty))) 2)
       = Inr [4, 6]" by (rule conjunct1)
  from c have c25: "fst (ColumnBlockNumbers
            (snd (createTestBlocks lengthPrefixed 20
                   (snd (createTestBlocks lengthPrefixed 5 (New Map.empty))))) 3)
       = Inr [7, 9, 11, 20, 28]" by blast
  from c have "Size 5 = Size 6 \<longrightarrow> rowBlockNumbers 2 5 = rowBlockNumbers 2 6" by blast
  with s have e: "rowBlockNumbers 2 5 = rowBlockNumbers 2 6" by (rule rev_mp)
  from h5 h25 r5 c25 s e show ?thesis by (intro conjI)
qed



section \<open>The store under insertion\<close>


subsection \<open>Decimal text never collides with the metadata key\<close>

lemma digitChar_digit: "n < 10 \<Longrightarrow> digitChar n \<in> set ''0123456789''"
proof -
  assume "n < 10"
  then have "n \<in> {0, 1, 2, 3, 4, 5, 6, 7, 8, 9}" by auto
  then show ?thesis by (auto simp: digitChar_def)
qed

lemma digitsOf_digits: "set (digitsOf n) \<subseteq> set ''0123456789''"
proof (induction n rule: digitsOf.induct)
  case (1 n)
  show ?case
  proof (cases "n < 10")
    case True
    then show ?thesis using digitChar_digit [of n] by (subst digitsOf.simps) simp
  next
    case False
    then have "set (digitsOf (n div 10)) \<subseteq> set ''0123456789''" by (rule "1.IH")
    moreover have "digitChar (n mod 10) \<in> set ''0123456789''" by (rule digitChar_digit) simp
    ultimately show ?thesis using False by (subst digitsOf.simps) simp
  qed
qed

lemma Itoa_chars: "set (Itoa i) \<subseteq> set ''-0123456789''"
proof -
  have sub: "set ''0123456789'' \<subseteq> set ''-0123456789''" by (simp add: subset_insertI)
  show ?thesis
  proof (cases "i < 0")
    case True
    then have "set (Itoa i) = insert CHR ''-'' (set (digitsOf (nat (- i))))"
      by (simp add: Itoa_def)
    moreover have "set (digitsOf (nat (- i))) \<subseteq> set ''-0123456789''"
      using digitsOf_digits sub by (rule subset_trans)
    ultimately show ?thesis by simp
  next
    case False
    then have "set (Itoa i) = set (digitsOf (nat i))" by (simp add: Itoa_def)
    then show ?thesis using digitsOf_digits [of "nat i"] sub by (simp only: subset_trans)
  qed
qed

lemma Itoa_not_info [simp]: "Itoa i \<noteq> ''info''" "''info'' \<noteq> Itoa i"
proof -
  have "CHR ''i'' \<notin> set ''-0123456789''" by simp
  then have a: "CHR ''i'' \<notin> set (Itoa i)" using Itoa_chars [of i] by (rule contra_subsetD [rotated])
  have b: "CHR ''i'' \<in> set ''info''" by simp
  show "Itoa i \<noteq> ''info''" using a b by metis
  then show "''info'' \<noteq> Itoa i" by (rule not_sym)
qed

lemma putEmptyBlocks_info [simp]: "putEmptyBlocks sha i bound d ''info'' = d ''info''"
proof (induction sha i bound d rule: putEmptyBlocks.induct)
  case (1 sha i bound d)
  show ?case
  proof (cases "i < bound")
    case True
    have "putEmptyBlocks sha i bound d ''info''
            = putEmptyBlocks sha (i + 1) bound
                (d(Itoa i \<mapsto> BlockJSON (EmptyBlock sha))) ''info''"
      using True by (subst putEmptyBlocks.simps) simp
    also have "\<dots> = (d(Itoa i \<mapsto> BlockJSON (EmptyBlock sha))) ''info''"
      using True by (rule "1.IH")
    also have "\<dots> = d ''info''" by simp
    finally show ?thesis .
  next
    case False
    then show ?thesis by (subst putEmptyBlocks.simps) simp
  qed
qed



subsection \<open>What \<open>updateBlockMatrixInfo\<close> changes\<close>


lemma inRange_nat: "inRange i xs \<Longrightarrow> nat i < length xs"
  unfolding inRange_def by linarith

lemma updateBlockMatrixInfo_Inr:
  assumes "updateBlockMatrixInfo sha info n d = Inr (info', d')"
  shows "d' = d(''info'' \<mapsto> InfoJSON info')"
    and "BlockCount info' = BlockCount info"
    and "info_Size info' = info_Size info"
    and "inRange (locateRow n) (Rows info)"
    and "inRange (locateCol n) (Cols info)"
    and "calculateRowHash sha d (locateRow n) (BlockCount info)
           = Inr (Rows info' ! nat (locateRow n))"
    and "calculateColumnHash sha d (locateCol n) (BlockCount info)
           = Inr (Cols info' ! nat (locateCol n))"
    and "Rows info' = (Rows info)[nat (locateRow n) := Rows info' ! nat (locateRow n)]"
    and "Cols info' = (Cols info)[nat (locateCol n) := Cols info' ! nat (locateCol n)]"
proof -
  let ?r = "locateRow n" and ?c = "locateCol n"
  note defs = updateBlockMatrixInfo_def locateBlock_def Let_def
  show r: "inRange ?r (Rows info)"
    using assms by (cases "inRange ?r (Rows info)") (simp_all add: defs)
  obtain rh where rh: "calculateRowHash sha d ?r (BlockCount info) = Inr rh"
    using assms r by (cases "calculateRowHash sha d ?r (BlockCount info)") (simp_all add: defs)
  show c: "inRange ?c (Cols info)"
    using assms r rh by (cases "inRange ?c (Cols info)") (simp_all add: defs)
  obtain ch where ch: "calculateColumnHash sha d ?c (BlockCount info) = Inr ch"
    using assms r rh c
    by (cases "calculateColumnHash sha d ?c (BlockCount info)") (simp_all add: defs)
  have both: "info\<lparr>Rows := (Rows info)[nat ?r := rh],
                   Cols := (Cols info)[nat ?c := ch]\<rparr> = info'
      \<and> d(''info'' \<mapsto> InfoJSON (info\<lparr>Rows := (Rows info)[nat ?r := rh],
                   Cols := (Cols info)[nat ?c := ch]\<rparr>)) = d'"
    using assms r rh c ch by (clarsimp simp: defs)
  then have eq: "info' = info\<lparr>Rows := (Rows info)[nat ?r := rh],
                          Cols := (Cols info)[nat ?c := ch]\<rparr>"
    by (elim conjE) (rule sym)
  from both have d': "d' = d(''info'' \<mapsto> InfoJSON info')"
    unfolding eq by (elim conjE) (rule sym)
  show "d' = d(''info'' \<mapsto> InfoJSON info')" by (rule d')
  show "BlockCount info' = BlockCount info" "info_Size info' = info_Size info"
    by (simp_all add: eq)
  have lr: "nat ?r < length (Rows info)" and lc: "nat ?c < length (Cols info)"
    by (simp_all add: inRange_nat r c)
  have nr: "Rows info' ! nat ?r = rh" and nc: "Cols info' ! nat ?c = ch"
    using lr lc by (simp_all add: eq)
  show "calculateRowHash sha d ?r (BlockCount info) = Inr (Rows info' ! nat ?r)"
    by (simp add: rh nr)
  show "calculateColumnHash sha d ?c (BlockCount info) = Inr (Cols info' ! nat ?c)"
    by (simp add: ch nc)
  show "Rows info' = (Rows info)[nat ?r := Rows info' ! nat ?r]"
    unfolding nr by (simp add: eq)
  show "Cols info' = (Cols info)[nat ?c := Cols info' ! nat ?c]"
    unfolding nc by (simp add: eq)
qed



section \<open>The dimension\<close>


subsection \<open>\<open>Size\<close> computes the smallest dimension\<close>

lemma ceilSqrt_bounds:
  assumes "1 \<le> x"
  shows "1 \<le> ceilSqrt x" "(ceilSqrt x - 1) * (ceilSqrt x - 1) < x"
    "x \<le> ceilSqrt x * ceilSqrt x"
proof -
  define s where "s = floorSqrt x"
  have s: "0 \<le> s" "s * s \<le> x" "x < (s + 1) * (s + 1)"
    unfolding s_def using assms floorSqrt_nonneg floorSqrt_sq_le [of x] floorSqrt_less [of x]
    by auto
  have s1: "1 \<le> s"
  proof (rule ccontr)
    assume "\<not> 1 \<le> s"
    with s(1) have "s = 0" by simp
    with s(3) assms show False by simp
  qed
  have c: "ceilSqrt x = (if s * s = x then s else s + 1)"
    by (simp add: ceilSqrt_def s_def Let_def)
  show "1 \<le> ceilSqrt x" using s1 c by simp
  show "x \<le> ceilSqrt x * ceilSqrt x" using s c by (auto split: if_splits)
  show "(ceilSqrt x - 1) * (ceilSqrt x - 1) < x"
  proof (cases "s * s = x")
    case True
    have "(s - 1) * (s - 1) = s * s - 2 * s + 1" by (simp add: algebra_simps)
    with s1 True c show ?thesis by simp
  next
    case False
    with s(2) c show ?thesis by simp
  qed
qed

lemma Size_smallest:
  assumes "1 \<le> bc"
  shows "smallestDimension (Size bc) bc"
proof -
  define c where "c = ceilSqrt bc"
  have c: "1 \<le> c" "(c - 1) * (c - 1) < bc" "bc \<le> c * c"
    unfolding c_def using ceilSqrt_bounds [OF assms] by auto
  have sz: "Size bc = (if c * c - c < bc then c + 1 else c)"
    by (simp add: Size_def c_def Let_def)
  show ?thesis
  proof (cases "c * c - c < bc")
    case True
    have "\<forall>m\<in>{1 ..< c + 1}. m * m - m < bc"
    proof
      fix m assume "m \<in> {1 ..< c + 1}"
      then have "1 \<le> m" "m \<le> c" by auto
      then have "m * m - m \<le> c * c - c" by (rule pronic_mono)
      with True show "m * m - m < bc" by simp
    qed
    moreover have "bc \<le> (c + 1) * (c + 1) - (c + 1)" using c by (simp add: algebra_simps)
    ultimately show ?thesis using True c(1) by (simp add: sz smallestDimension_def)
  next
    case False
    have "\<forall>m\<in>{1 ..< c}. m * m - m < bc"
    proof
      fix m assume "m \<in> {1 ..< c}"
      then have m: "1 \<le> m" "m \<le> c - 1" by auto
      then have "m * m \<le> (c - 1) * (c - 1)" by (intro sq_mono_int) auto
      with m(1) c(2) show "m * m - m < bc" by linarith
    qed
    then show ?thesis using False c(1) by (simp add: sz smallestDimension_def)
  qed
qed

lemma smallestDimension_mono:
  assumes "smallestDimension n bc" "smallestDimension n' bc'" "bc \<le> bc'"
  shows "n \<le> n'"
proof (rule ccontr)
  assume "\<not> n \<le> n'"
  then have "n' \<in> {1 ..< n}" using assms(2) by (simp add: smallestDimension_def)
  then have "n' * n' - n' < bc" using assms(1) by (simp add: smallestDimension_def)
  moreover have "bc' \<le> n' * n' - n'" using assms(2) by (simp add: smallestDimension_def)
  ultimately show False using assms(3) by simp
qed

lemma smallestDimension_unique:
  "smallestDimension n bc \<Longrightarrow> smallestDimension n' bc \<Longrightarrow> n = n'"
  using smallestDimension_mono [of n bc n' bc] smallestDimension_mono [of n' bc n bc]
  by simp

lemma Size_0: "Size 0 = 0"
  by code_simp

lemma grown_fields:
  "BlockCount (grown info0) = BlockCount info0 + 1"
  "info_Size (grown info0) =
     (if Size (BlockCount info0 + 1) > info_Size info0
      then Size (BlockCount info0 + 1) else info_Size info0)"
  "Rows (grown info0) =
     (if Size (BlockCount info0 + 1) > info_Size info0
      then Rows info0 @ [[]] else Rows info0)"
  "Cols (grown info0) =
     (if Size (BlockCount info0 + 1) > info_Size info0
      then Cols info0 @ [[]] else Cols info0)"
  by (simp_all add: grown_def Let_def)

lemma infoOK_grown:
  assumes "infoOK info0"
  shows "infoOK (grown info0)" "info_Size info0 \<le> info_Size (grown info0)"
    "info_Size (grown info0) = Size (BlockCount info0 + 1)"
proof -
  let ?bc = "BlockCount info0"
  have bc: "0 \<le> ?bc" and sm: "smallestDimension (info_Size info0) ?bc"
    using assms by (simp_all add: infoOK_def)
  have new: "smallestDimension (Size (?bc + 1)) (?bc + 1)"
    using bc by (intro Size_smallest) simp
  have le: "info_Size info0 \<le> Size (?bc + 1)"
    using sm new by (rule smallestDimension_mono) simp
  then show eq: "info_Size (grown info0) = Size (?bc + 1)"
    by (simp add: grown_fields)
  show "info_Size info0 \<le> info_Size (grown info0)" using le eq by simp
  show "infoOK (grown info0)"
    using bc new unfolding infoOK_def eq by (simp add: grown_fields)
qed




subsection \<open>\<open>AddBlock\<close> on a store with readable metadata\<close>

lemma GetBlockMatrixInfo_readable:
  "d ''info'' = Some (InfoJSON info) \<Longrightarrow> GetBlockMatrixInfo d = (Inr info, d)"
  by (simp add: GetBlockMatrixInfo_def)

lemma GetBlockMatrixInfo_Num:
  "d ''info'' = Some (Num s) \<Longrightarrow> GetBlockMatrixInfo d = (Inl ErrUnmarshal, d)"
  by (simp add: GetBlockMatrixInfo_def)

lemma AddBlock_unreadable:
  "GetBlockMatrixInfo d = (Inl e, d') \<Longrightarrow> AddBlock sha key data d = (Some e, d')"
  by (simp add: AddBlock_def)

lemma AddBlock_readable:
  fixes sha :: hashfn and key :: string and data :: bytes and d d0 :: db
    and info0 :: BlockMatrixInfo
  assumes "GetBlockMatrixInfo d = (Inr info0, d0)"
  defines "n \<equiv> BlockCount info0 + 1"
  defines "d1 \<equiv> (if Size n > info_Size info0
                   then putEmptyBlocks sha n (n + 2 * info_Size info0) d0 else d0)"
  defines "d3 \<equiv> d1(key \<mapsto> Num (Itoa n), Itoa n \<mapsto> BlockJSON (NewBlock sha data))"
  shows "AddBlock sha key data d =
           (case updateBlockMatrixInfo sha (grown info0) n d3 of
              Inl e \<Rightarrow> (Some e, d3)
            | Inr (info3, d4) \<Rightarrow> (None, d4))"
proof (cases "Size n > info_Size info0")
  case True
  then show ?thesis
    using assms(1) unfolding AddBlock_def d3_def d1_def n_def
    by (simp add: Let_def updateBlockMatrixSize_def grown_def cong: sum.case_cong)
next
  case False
  then show ?thesis
    using assms(1) unfolding AddBlock_def d3_def d1_def n_def
    by (simp add: Let_def grown_def cong: sum.case_cong)
qed

lemma AddBlock_info_key:
  assumes "d ''info'' = Some (InfoJSON info0)"
  shows "(fst (AddBlock sha key data d) \<noteq> None
            \<and> snd (AddBlock sha key data d) ''info''
                = (if key = ''info'' then Some (Num (Itoa (BlockCount info0 + 1)))
                   else Some (InfoJSON info0)))
       \<or> (\<exists>info3. fst (AddBlock sha key data d) = None
            \<and> snd (AddBlock sha key data d) ''info'' = Some (InfoJSON info3)
            \<and> BlockCount info3 = BlockCount info0 + 1
            \<and> info_Size info3 = info_Size (grown info0))"
proof -
  let ?n = "BlockCount info0 + 1"
  let ?d1 = "(if Size ?n > info_Size info0
                   then putEmptyBlocks sha ?n (?n + 2 * info_Size info0) d else d)"
  let ?d3 = "?d1(key \<mapsto> Num (Itoa ?n), Itoa ?n \<mapsto> BlockJSON (NewBlock sha data))"
  have A: "AddBlock sha key data d =
           (case updateBlockMatrixInfo sha (grown info0) ?n ?d3 of
              Inl e \<Rightarrow> (Some e, ?d3)
            | Inr (info3, d4) \<Rightarrow> (None, d4))"
  proof (rule AddBlock_readable)
    show "GetBlockMatrixInfo d = (Inr info0, d)" using assms by (rule GetBlockMatrixInfo_readable)
  qed
  have d3: "?d3 ''info'' = (if key = ''info'' then Some (Num (Itoa ?n))
                   else Some (InfoJSON info0))"
    using assms by simp
  show ?thesis
  proof (cases "updateBlockMatrixInfo sha (grown info0) ?n ?d3")
    case (Inl e)
    then have "AddBlock sha key data d = (Some e, ?d3)" using A by simp
    then show ?thesis using d3 by simp
  next
    case (Inr p)
    obtain info3 d4 where p: "p = (info3, d4)" by (cases p)
    have u: "updateBlockMatrixInfo sha (grown info0) ?n ?d3 = Inr (info3, d4)"
      using Inr p by simp
    have R: "AddBlock sha key data d = (None, d4)" using A u by simp
    have "d4 ''info'' = Some (InfoJSON info3)"
      using updateBlockMatrixInfo_Inr(1) [OF u] by simp
    moreover have "BlockCount info3 = ?n"
      using updateBlockMatrixInfo_Inr(2) [OF u] by (simp add: grown_fields)
    moreover have "info_Size info3 = info_Size (grown info0)"
      using updateBlockMatrixInfo_Inr(3) [OF u] .
    ultimately show ?thesis using R by simp
  qed
qed

lemma storeOK_New: "storeOK (New Map.empty)"
  by (simp add: storeOK_def New_def initInfo_def infoOK_def smallestDimension_def)

lemma storeOK_AddBlock:
  assumes "storeOK d"
  shows "storeOK (snd (AddBlock sha key data d))"
proof (cases "d ''info''")
  case None
  with assms show ?thesis by (simp add: storeOK_def)
next
  case (Some v)
  show ?thesis
  proof (cases v)
    case (Num s)
    then have "AddBlock sha key data d = (Some ErrUnmarshal, d)"
      using Some by (intro AddBlock_unreadable GetBlockMatrixInfo_Num) simp
    with assms show ?thesis by simp
  next
    case (BlockJSON b)
    with Some assms show ?thesis by (simp add: storeOK_def)
  next
    case (InfoJSON info0)
    then have i: "d ''info'' = Some (InfoJSON info0)" using Some by simp
    have ok: "infoOK info0" using assms i by (simp add: storeOK_def)
    from AddBlock_info_key [where d = d and sha = sha and key = key and data = data, OF i]
    show ?thesis
    proof (elim disjE conjE exE)
      assume "snd (AddBlock sha key data d) ''info''
                = (if key = ''info'' then Some (Num (Itoa (BlockCount info0 + 1)))
                   else Some (InfoJSON info0))"
      then show ?thesis using ok by (simp add: storeOK_def)
    next
      fix info3
      assume a: "snd (AddBlock sha key data d) ''info'' = Some (InfoJSON info3)"
        "BlockCount info3 = BlockCount info0 + 1"
        "info_Size info3 = info_Size (grown info0)"
      have "infoOK (grown info0)" using ok by (rule infoOK_grown)
      then have "infoOK info3" using a(2,3) by (simp add: infoOK_def grown_fields)
      then show ?thesis using a(1) by (simp add: storeOK_def)
    qed
  qed
qed

lemma reachable_storeOK: "reachable sha d \<Longrightarrow> storeOK d"
  by (induction rule: reachable.induct) (simp_all add: storeOK_New storeOK_AddBlock)

lemma storeOK_readable:
  assumes "storeOK d" "fst (GetBlockMatrixInfo d) = Inr info"
  shows "d ''info'' = Some (InfoJSON info)" "infoOK info"
proof -
  show "d ''info'' = Some (InfoJSON info)"
    using assms
    by (auto simp: storeOK_def GetBlockMatrixInfo_def split: option.splits stored.splits)
  then show "infoOK info" using assms(1) by (simp add: storeOK_def)
qed



section \<open>Claim about the dimension\<close>


text \<open>
  Claim C3, as the spec states it: in every reachable state the stored dimension is the
  smallest \<open>n\<close> with \<open>n\<^sup>2 - n \<ge> blockCount\<close>, which is what \<open>Size blockCount\<close>
  computes. In the freshly initialised matrix the stored dimension is 1 and the block
  count is 0, while \<open>Size 0 = 0\<close> (and \<open>0\<close> already satisfies the inequality).
\<close>

theorem fresh_dimension_differs_from_Size:
  "fst (GetBlockMatrixInfo (New Map.empty))
     = Inr \<lparr>info_Size = 1, BlockCount = 0, Rows = [[]], Cols = [[]]\<rparr>
   \<and> Size 0 = 0
   \<and> info_Size \<lparr>info_Size = 1, BlockCount = 0, Rows = [[]], Cols = [[]]\<rparr>
       \<noteq> Size (BlockCount \<lparr>info_Size = 1, BlockCount = 0, Rows = [[]], Cols = [[]]\<rparr>)
   \<and> BlockCount \<lparr>info_Size = 1, BlockCount = 0, Rows = [[]], Cols = [[]]\<rparr>
       \<le> (0::int) * 0 - 0"
  by (simp add: Size_0 New_def initInfo_def GetBlockMatrixInfo_def)

text \<open>
  Claim C3, amended. In every store reachable from the freshly initialised matrix by
  \<open>AddBlock\<close> calls whose metadata is readable: the block count is between 0 and
  \<open>dimension\<^sup>2 - dimension\<close>; the stored dimension is the smallest \<open>n \<ge> 1\<close> with
  \<open>n\<^sup>2 - n \<ge> blockCount\<close>; it equals \<open>Size blockCount\<close> whenever the block count
  is at least 1; and a further \<open>AddBlock\<close> never decreases it, a successful one
  incrementing the block count and storing \<open>Size\<close> of the new count.
\<close>

theorem dimension_invariant:
  assumes "reachable sha d" and "fst (GetBlockMatrixInfo d) = Inr info"
  shows "0 \<le> BlockCount info
       \<and> BlockCount info \<le> info_Size info * info_Size info - info_Size info
       \<and> smallestDimension (info_Size info) (BlockCount info)
       \<and> (1 \<le> BlockCount info \<longrightarrow> info_Size info = Size (BlockCount info))
       \<and> (\<forall>key data info'.
             fst (GetBlockMatrixInfo (snd (AddBlock sha key data d))) = Inr info' \<longrightarrow>
               info_Size info \<le> info_Size info'
             \<and> (fst (AddBlock sha key data d) = None \<longrightarrow>
                   BlockCount info' = BlockCount info + 1
                 \<and> info_Size info' = Size (BlockCount info')))"
proof -
  have ok: "storeOK d" using assms(1) by (rule reachable_storeOK)
  have i: "d ''info'' = Some (InfoJSON info)" and io: "infoOK info"
    using storeOK_readable [OF ok assms(2)] by simp_all
  have bc: "0 \<le> BlockCount info" and sm: "smallestDimension (info_Size info) (BlockCount info)"
    using io by (simp_all add: infoOK_def)
  have up: "BlockCount info \<le> info_Size info * info_Size info - info_Size info"
    using sm by (simp add: smallestDimension_def)
  have sz: "1 \<le> BlockCount info \<longrightarrow> info_Size info = Size (BlockCount info)"
  proof
    assume "1 \<le> BlockCount info"
    then have "smallestDimension (Size (BlockCount info)) (BlockCount info)"
      by (rule Size_smallest)
    with sm show "info_Size info = Size (BlockCount info)"
      by (rule smallestDimension_unique)
  qed
  have step: "\<forall>key data info'.
             fst (GetBlockMatrixInfo (snd (AddBlock sha key data d))) = Inr info' \<longrightarrow>
               info_Size info \<le> info_Size info'
             \<and> (fst (AddBlock sha key data d) = None \<longrightarrow>
                   BlockCount info' = BlockCount info + 1
                 \<and> info_Size info' = Size (BlockCount info'))"
  proof (intro allI impI)
    fix key data info'
    let ?d' = "snd (AddBlock sha key data d)"
    assume r: "fst (GetBlockMatrixInfo ?d') = Inr info'"
    have ok': "storeOK ?d'" using ok by (rule storeOK_AddBlock)
    have i': "?d' ''info'' = Some (InfoJSON info')"
      using storeOK_readable(1) [OF ok' r] .
    from AddBlock_info_key [where d = d and sha = sha and key = key and data = data, OF i]
    show "info_Size info \<le> info_Size info'
             \<and> (fst (AddBlock sha key data d) = None \<longrightarrow>
                   BlockCount info' = BlockCount info + 1
                 \<and> info_Size info' = Size (BlockCount info'))"
    proof (elim disjE conjE exE)
      assume f: "fst (AddBlock sha key data d) \<noteq> None"
        and "?d' ''info'' = (if key = ''info'' then Some (Num (Itoa (BlockCount info + 1)))
                   else Some (InfoJSON info))"
      with i' have "info' = info" by (simp split: if_splits)
      with f show ?thesis by simp
    next
      fix info3
      assume a: "?d' ''info'' = Some (InfoJSON info3)"
        "BlockCount info3 = BlockCount info + 1"
        "info_Size info3 = info_Size (grown info)"
      have e: "info' = info3" using a(1) i' by simp
      show ?thesis
        using infoOK_grown(2,3) [OF io] a(2,3) by (simp add: e)
    qed
  qed
  from bc up sm sz step show ?thesis by (intro conjI)
qed

theorem dimension_invariant_witness:
  "reachable lengthPrefixed (snd (AddBlock lengthPrefixed ''a'' [1] (New Map.empty)))
   \<and> fst (GetBlockMatrixInfo (snd (AddBlock lengthPrefixed ''a'' [1] (New Map.empty))))
       = Inr \<lparr>info_Size = 2, BlockCount = 1,
              Rows = [[2, 1, 1], []], Cols = [[], [2, 1, 1]]\<rparr>
   \<and> smallestDimension 2 1
   \<and> (2::int) = Size 1"
proof -
  let ?d = "snd (AddBlock lengthPrefixed ''a'' [1] (New Map.empty))"
  let ?i = "\<lparr>info_Size = 2, BlockCount = 1,
              Rows = [[2, 1, 1], []], Cols = [[], [2, 1, 1 :: byte]]\<rparr>"
  have r: "reachable lengthPrefixed ?d" by (intro reachable.intros)
  have g: "fst (GetBlockMatrixInfo ?d) = Inr ?i" by code_simp
  note c = dimension_invariant [OF r g]
  from c have "smallestDimension (info_Size ?i) (BlockCount ?i)" by blast
  then have s: "smallestDimension 2 1" by simp
  from c have "1 \<le> BlockCount ?i \<longrightarrow> info_Size ?i = Size (BlockCount ?i)" by blast
  then have e: "(2::int) = Size 1" by simp
  from r g s e show ?thesis by (intro conjI)
qed



section \<open>Claims about verification and the key index\<close>

text \<open>
  Claim C4: after well-formed insertions \<open>IsValid\<close> succeeds, and it reports a mismatch
  only when a stored hash or digest disagrees with its recomputation. The code returns
  the error where the two are equal: after one insertion into the fresh matrix, whatever
  the hash function, \<open>IsValid\<close> fails with the block-hash error for block 1, whose
  stored hash is the hash of its data.
\<close>

theorem IsValid_rejects_first_block:
  "fst (AddBlock sha ''k'' [1] (New Map.empty)) = None
   \<and> GetBlockByNumber (snd (AddBlock sha ''k'' [1] (New Map.empty))) 1
       = Inr \<lparr>Data = [1], Hash = sha [1]\<rparr>
   \<and> fst (IsValid sha (snd (AddBlock sha ''k'' [1] (New Map.empty))))
       = Some (ErrBlockHash 1)"
proof (intro conjI)
  show "fst (AddBlock sha ''k'' [1] (New Map.empty)) = None" by code_simp
  show "GetBlockByNumber (snd (AddBlock sha ''k'' [1] (New Map.empty))) 1
       = Inr \<lparr>Data = [1], Hash = sha [1]\<rparr>" by code_simp
  show "fst (IsValid sha (snd (AddBlock sha ''k'' [1] (New Map.empty))))
       = Some (ErrBlockHash 1)" by code_simp
qed

text \<open>
  Claim C5: \<open>BlockNumber\<close> returns the number \<open>AddBlock\<close> assigned, also when it has
  two digits. After the ten insertions of \<open>createTestBlocks\<close> the key \<open>key9\<close> is
  stored with the text \<open>10\<close>, and \<open>BlockNumber\<close> returns 1: it parses the first byte
  only. The variant in \<open>blockmatrix.go\<close> returns 49, the code of that byte.
\<close>

theorem BlockNumber_two_digits:
  "fst (createTestBlocks sha 10 (New Map.empty)) = None
   \<and> snd (createTestBlocks sha 10 (New Map.empty)) ''key9'' = Some (Num ''10'')
   \<and> BlockNumber (snd (createTestBlocks sha 10 (New Map.empty))) ''key9'' = Inr 1
   \<and> BlockNumber_byte (snd (createTestBlocks sha 10 (New Map.empty))) ''key9'' = Inr 49"
proof (intro conjI)
  show "fst (createTestBlocks sha 10 (New Map.empty)) = None" by code_simp
  show "snd (createTestBlocks sha 10 (New Map.empty)) ''key9'' = Some (Num ''10'')"
    by code_simp
  show "BlockNumber (snd (createTestBlocks sha 10 (New Map.empty))) ''key9'' = Inr 1"
    by code_simp
  show "BlockNumber_byte (snd (createTestBlocks sha 10 (New Map.empty))) ''key9'' = Inr 49"
    by code_simp
qed

section \<open>Claim about the digests under insertion\<close>

text \<open>
  Claim C8, as the spec states it: a single \<open>AddBlock\<close> changes exactly one row digest
  and exactly one column digest. The sixth insertion goes to row 2, whose digest was
  last computed, at the fourth insertion, over block 4 and the sentinel in slot 6. With
  the sentinel's payload \<open>[0]\<close> as the sixth payload the recomputed row digest is the
  stored one: no row digest changes.
\<close>

theorem AddBlock_sentinel_payload_changes_no_row:
  "map_sum id Rows
     (fst (GetBlockMatrixInfo (addBlocks lengthPrefixed (take 5 tenInserts) (New Map.empty))))
     = Inr [[4, 1, 1, 1, 3], [4, 1, 2, 1, 5], [4, 1, 4, 1, 0]]
   \<and> fst (AddBlock lengthPrefixed ''f'' [0]
            (addBlocks lengthPrefixed (take 5 tenInserts) (New Map.empty))) = None
   \<and> map_sum id Rows
       (fst (GetBlockMatrixInfo
              (snd (AddBlock lengthPrefixed ''f'' [0]
                     (addBlocks lengthPrefixed (take 5 tenInserts) (New Map.empty))))))
     = Inr [[4, 1, 1, 1, 3], [4, 1, 2, 1, 5], [4, 1, 4, 1, 0]]"
proof (intro conjI)
  show "map_sum id Rows
     (fst (GetBlockMatrixInfo (addBlocks lengthPrefixed (take 5 tenInserts) (New Map.empty))))
     = Inr [[4, 1, 1, 1, 3], [4, 1, 2, 1, 5], [4, 1, 4, 1, 0]]" by code_simp
  show "fst (AddBlock lengthPrefixed ''f'' [0]
            (addBlocks lengthPrefixed (take 5 tenInserts) (New Map.empty))) = None"
    by code_simp
  show "map_sum id Rows
       (fst (GetBlockMatrixInfo
              (snd (AddBlock lengthPrefixed ''f'' [0]
                     (addBlocks lengthPrefixed (take 5 tenInserts) (New Map.empty))))))
     = Inr [[4, 1, 1, 1, 3], [4, 1, 2, 1, 5], [4, 1, 4, 1, 0]]" by code_simp
qed



lemma GetBlockMatrixInfo_after_update:
  "GetBlockMatrixInfo (d(''info'' \<mapsto> InfoJSON info)) = (Inr info, d(''info'' \<mapsto> InfoJSON info))"
  by (simp add: GetBlockMatrixInfo_def)

lemma AddBlock_success:
  assumes "fst (GetBlockMatrixInfo d) = Inr info" and "fst (AddBlock sha key data d) = None"
  obtains info' d3 where
    "updateBlockMatrixInfo sha (grown info) (BlockCount info + 1) d3
       = Inr (info', snd (AddBlock sha key data d))"
proof -
  obtain d0 where g: "GetBlockMatrixInfo d = (Inr info, d0)"
    using assms(1) by (cases "GetBlockMatrixInfo d") simp
  let ?n = "BlockCount info + 1"
  let ?d1 = "(if Size ?n > info_Size info
                   then putEmptyBlocks sha ?n (?n + 2 * info_Size info) d0 else d0)"
  let ?d3 = "?d1(key \<mapsto> Num (Itoa ?n), Itoa ?n \<mapsto> BlockJSON (NewBlock sha data))"
  have A: "AddBlock sha key data d =
           (case updateBlockMatrixInfo sha (grown info) ?n ?d3 of
              Inl e \<Rightarrow> (Some e, ?d3)
            | Inr (info3, d4) \<Rightarrow> (None, d4))"
    using g by (rule AddBlock_readable)
  show thesis
  proof (cases "updateBlockMatrixInfo sha (grown info) ?n ?d3")
    case (Inl e)
    then have "fst (AddBlock sha key data d) = Some e" using A by simp
    with assms(2) show thesis by simp
  next
    case (Inr p)
    obtain info3 d4 where p: "p = (info3, d4)" by (cases p)
    have "snd (AddBlock sha key data d) = d4" using A Inr p by simp
    then have "updateBlockMatrixInfo sha (grown info) ?n ?d3
       = Inr (info3, snd (AddBlock sha key data d))" using Inr p by simp
    then show thesis by (rule that)
  qed
qed

text \<open>
  Claim C8, amended. After a successful \<open>AddBlock\<close> the metadata is readable, the block
  count is one more, and every row digest and every column digest that existed before,
  other than the one at the row and the one at the column of the inserted block, is the
  same as before: at most one row digest and at most one column digest differ.
\<close>

theorem AddBlock_digest_frame:
  assumes "fst (GetBlockMatrixInfo d) = Inr info" and "fst (AddBlock sha key data d) = None"
  shows "\<exists>info'. fst (GetBlockMatrixInfo (snd (AddBlock sha key data d))) = Inr info'
       \<and> BlockCount info' = BlockCount info + 1
       \<and> length (Rows info) \<le> length (Rows info')
       \<and> length (Cols info) \<le> length (Cols info')
       \<and> (\<forall>k < length (Rows info). int k \<noteq> fst (locateBlock (BlockCount info')) \<longrightarrow>
             Rows info' ! k = Rows info ! k)
       \<and> (\<forall>k < length (Cols info). int k \<noteq> snd (locateBlock (BlockCount info')) \<longrightarrow>
             Cols info' ! k = Cols info ! k)"
proof -
  let ?n = "BlockCount info + 1"
  let ?r = "locateRow ?n" and ?c = "locateCol ?n"
  from assms obtain info' d3 where
    u: "updateBlockMatrixInfo sha (grown info) ?n d3
          = Inr (info', snd (AddBlock sha key data d))"
    by (rule AddBlock_success)
  note f = updateBlockMatrixInfo_Inr [OF u]
  have g: "fst (GetBlockMatrixInfo (snd (AddBlock sha key data d))) = Inr info'"
    by (subst f(1)) (simp add: GetBlockMatrixInfo_after_update)
  have bc: "BlockCount info' = ?n" using f(2) by (simp add: grown_fields)
  have rows: "Rows info' = (Rows (grown info))[nat ?r := Rows info' ! nat ?r]"
    and cols: "Cols info' = (Cols (grown info))[nat ?c := Cols info' ! nat ?c]"
    using f(8,9) .
  have r0: "0 \<le> ?r" and c0: "0 \<le> ?c" using f(4,5) by (simp_all add: inRange_def)
  have lr: "length (Rows info) \<le> length (Rows info')"
    by (subst rows) (simp add: grown_fields)
  have lc: "length (Cols info) \<le> length (Cols info')"
    by (subst cols) (simp add: grown_fields)
  have fr: "\<forall>k < length (Rows info). int k \<noteq> fst (locateBlock (BlockCount info')) \<longrightarrow>
             Rows info' ! k = Rows info ! k"
  proof (intro allI impI)
    fix k assume k: "k < length (Rows info)" "int k \<noteq> fst (locateBlock (BlockCount info'))"
    then have "k \<noteq> nat ?r" using r0 by (auto simp: bc locateBlock_def)
    then have "Rows info' ! k = Rows (grown info) ! k"
      by (subst rows) simp
    also have "\<dots> = Rows info ! k" using k(1) by (simp add: grown_fields nth_append)
    finally show "Rows info' ! k = Rows info ! k" .
  qed
  have fc: "\<forall>k < length (Cols info). int k \<noteq> snd (locateBlock (BlockCount info')) \<longrightarrow>
             Cols info' ! k = Cols info ! k"
  proof (intro allI impI)
    fix k assume k: "k < length (Cols info)" "int k \<noteq> snd (locateBlock (BlockCount info'))"
    then have "k \<noteq> nat ?c" using c0 by (auto simp: bc locateBlock_def)
    then have "Cols info' ! k = Cols (grown info) ! k"
      by (subst cols) simp
    also have "\<dots> = Cols info ! k" using k(1) by (simp add: grown_fields nth_append)
    finally show "Cols info' ! k = Cols info ! k" .
  qed
  from g bc lr lc fr fc show ?thesis by blast
qed



theorem AddBlock_digest_frame_witness:
  "fst (GetBlockMatrixInfo (addBlocks lengthPrefixed (take 5 tenInserts) (New Map.empty)))
     = Inr \<lparr>info_Size = 3, BlockCount = 5,
            Rows = [[4, 1, 1, 1, 3], [4, 1, 2, 1, 5], [4, 1, 4, 1, 0]],
            Cols = [[4, 1, 2, 1, 4], [2, 1, 1], [4, 1, 3, 1, 5]]\<rparr>
   \<and> fst (AddBlock lengthPrefixed ''f'' [6]
            (addBlocks lengthPrefixed (take 5 tenInserts) (New Map.empty))) = None
   \<and> (\<exists>info'. fst (GetBlockMatrixInfo
                     (snd (AddBlock lengthPrefixed ''f'' [6]
                            (addBlocks lengthPrefixed (take 5 tenInserts) (New Map.empty)))))
                = Inr info'
         \<and> Rows info' ! 0 = [4, 1, 1, 1, 3] \<and> Rows info' ! 1 = [4, 1, 2, 1, 5]
         \<and> Cols info' ! 0 = [4, 1, 2, 1, 4] \<and> Cols info' ! 2 = [4, 1, 3, 1, 5])"
proof -
  let ?d = "addBlocks lengthPrefixed (take 5 tenInserts) (New Map.empty)"
  let ?i = "\<lparr>info_Size = 3, BlockCount = 5,
            Rows = [[4, 1, 1, 1, 3], [4, 1, 2, 1, 5], [4, 1, 4, 1, 0]],
            Cols = [[4, 1, 2, 1, 4], [2, 1, 1], [4, 1, 3, 1, 5 :: byte]]\<rparr>"
  have h1: "fst (GetBlockMatrixInfo ?d) = Inr ?i" by code_simp
  have h2: "fst (AddBlock lengthPrefixed ''f'' [6] ?d) = None" by code_simp
  have l: "locateBlock 6 = (2, 1)" by code_simp
  from AddBlock_digest_frame [OF h1 h2] obtain info' where
    g: "fst (GetBlockMatrixInfo (snd (AddBlock lengthPrefixed ''f'' [6] ?d))) = Inr info'"
    and bc: "BlockCount info' = BlockCount ?i + 1"
    and fr: "\<forall>k < length (Rows ?i). int k \<noteq> fst (locateBlock (BlockCount info')) \<longrightarrow>
             Rows info' ! k = Rows ?i ! k"
    and fc: "\<forall>k < length (Cols ?i). int k \<noteq> snd (locateBlock (BlockCount info')) \<longrightarrow>
             Cols info' ! k = Cols ?i ! k"
    by blast
  have loc: "locateBlock (BlockCount info') = (2, 1)" using bc l by simp
  have "Rows info' ! 0 = Rows ?i ! 0" using fr loc by simp
  moreover have "Rows info' ! 1 = Rows ?i ! 1" using fr [rule_format, of 1] loc by simp
  moreover have "Cols info' ! 0 = Cols ?i ! 0" using fc loc by simp
  moreover have "Cols info' ! 2 = Cols ?i ! 2" using fc [rule_format, of 2] loc by simp
  ultimately have "Rows info' ! 0 = [4, 1, 1, 1, 3] \<and> Rows info' ! 1 = [4, 1, 2, 1, 5]
         \<and> Cols info' ! 0 = [4, 1, 2, 1, 4] \<and> Cols info' ! 2 = [4, 1, 3, 1, 5]"
    by simp
  with g have "\<exists>info'. fst (GetBlockMatrixInfo
                     (snd (AddBlock lengthPrefixed ''f'' [6] ?d))) = Inr info'
         \<and> Rows info' ! 0 = [4, 1, 1, 1, 3] \<and> Rows info' ! 1 = [4, 1, 2, 1, 5]
         \<and> Cols info' ! 0 = [4, 1, 2, 1, 4] \<and> Cols info' ! 2 = [4, 1, 3, 1, 5]"
    by blast
  with h1 h2 show ?thesis by (intro conjI)
qed


section \<open>Claims about redaction\<close>


lemma Atoi1_range: "Atoi1 c = Inr n \<Longrightarrow> 0 \<le> n \<and> n \<le> 9"
  by (auto simp: Atoi1_def split: if_splits)

lemma BlockNumber_range: "BlockNumber d key = Inr n \<Longrightarrow> 0 \<le> n \<and> n \<le> 9"
  by (auto simp: BlockNumber_def dest: Atoi1_range split: option.splits)

lemma BlockNumber_present: "BlockNumber d key = Inr n \<Longrightarrow> d key \<noteq> None"
  by (auto simp: BlockNumber_def split: option.splits)

lemma locateBlock_not_origin:
  assumes "0 \<le> n"
  shows "locateBlock n \<noteq> (0, 0)"
proof (cases "n = 0")
  case True
  have "locateBlock 0 = (0, - 1)" by code_simp
  with True show ?thesis by simp
next
  case False
  with assms have "1 \<le> n" by simp
  then obtain i j where "0 \<le> i" "0 \<le> j" "i \<noteq> j" "n = cellNumber (i, j)"
    using cellNumber_surj by blast
  then show ?thesis by (auto simp: locate_cellNumber)
qed

lemma EraseBlock_success:
  assumes "fst (EraseBlock sha key d) = None"
  obtains n info d3 info' where
    "BlockNumber d key = Inr n"
    "GetBlockMatrixInfo ((d(key := None))(Itoa n \<mapsto> BlockJSON (EmptyBlock sha)))
       = (Inr info, d3)"
    "updateBlockMatrixInfo sha info n d3 = Inr (info', snd (EraseBlock sha key d))"
    "checkValidErase info' (Rows info) (Cols info) = Inr True"
proof (cases "BlockNumber d key")
  case (Inl e)
  then have "fst (EraseBlock sha key d) = Some e" by (simp add: EraseBlock_def)
  with assms show thesis by simp
next
  case (Inr n)
  let ?d2 = "(d(key := None))(Itoa n \<mapsto> BlockJSON (EmptyBlock sha))"
  obtain r d3 where g: "GetBlockMatrixInfo ?d2 = (r, d3)" by (cases "GetBlockMatrixInfo ?d2")
  show thesis
  proof (cases r)
    case (Inl e)
    then have "fst (EraseBlock sha key d) = Some e"
      using Inr g by (simp add: EraseBlock_def Let_def)
    with assms show thesis by simp
  next
    case info: (Inr info)
    have E: "EraseBlock sha key d =
        (case updateBlockMatrixInfo sha info n d3 of
           Inl e \<Rightarrow> (Some e, d3)
         | Inr (info', d4) \<Rightarrow>
             (case checkValidErase info' (Rows info) (Cols info) of
                Inl e \<Rightarrow> (Some e, d4)
              | Inr ok \<Rightarrow> if \<not> ok then (Some ErrInvalidErase, d4) else (None, d4)))"
      using Inr g info by (simp add: EraseBlock_def Let_def)
    show thesis
    proof (cases "updateBlockMatrixInfo sha info n d3")
      case (Inl e)
      then have "fst (EraseBlock sha key d) = Some e" using E by simp
      with assms show thesis by simp
    next
      case u: (Inr p)
      obtain info' d4 where p: "p = (info', d4)" by (cases p)
      show thesis
      proof (cases "checkValidErase info' (Rows info) (Cols info)")
        case (Inl e)
        then have "fst (EraseBlock sha key d) = Some e" using E u p by simp
        with assms show thesis by simp
      next
        case ok: (Inr ok)
        have "ok" using assms E u p ok by (cases ok) simp_all
        moreover have "snd (EraseBlock sha key d) = d4" using E u p ok by (cases ok) simp_all
        ultimately show thesis using that [of n info d3 info'] Inr g info u p ok by simp
      qed
    qed
  qed
qed

text \<open>
  Claim C6: after a successful \<open>EraseBlock\<close> of a key, the block under the number the
  key mapped to is the empty-block sentinel. After the ten insertions \<open>tenInserts\<close> the
  key \<open>j\<close> maps to block 10. \<open>EraseBlock\<close> of \<open>j\<close> succeeds, block 10 still holds
  its payload, and block 1, inserted under the key \<open>a\<close>, holds the sentinel.
\<close>

theorem EraseBlock_erases_first_digit:
  "addBlocks lengthPrefixed tenInserts (New Map.empty) ''j'' = Some (Num ''10'')
   \<and> GetBlockByNumber (addBlocks lengthPrefixed tenInserts (New Map.empty)) 1
       = Inr \<lparr>Data = [1], Hash = [1, 1]\<rparr>
   \<and> fst (EraseBlock lengthPrefixed ''j''
            (addBlocks lengthPrefixed tenInserts (New Map.empty))) = None
   \<and> GetBlockByNumber
        (snd (EraseBlock lengthPrefixed ''j''
               (addBlocks lengthPrefixed tenInserts (New Map.empty)))) 10
       = Inr \<lparr>Data = [10], Hash = [1, 10]\<rparr>
   \<and> GetBlockByNumber
        (snd (EraseBlock lengthPrefixed ''j''
               (addBlocks lengthPrefixed tenInserts (New Map.empty)))) 1
       = Inr (EmptyBlock lengthPrefixed)
   \<and> EmptyBlock lengthPrefixed = \<lparr>Data = [0], Hash = [1, 0]\<rparr>"
proof (intro conjI)
  show "addBlocks lengthPrefixed tenInserts (New Map.empty) ''j'' = Some (Num ''10'')"
    by code_simp
  show "GetBlockByNumber (addBlocks lengthPrefixed tenInserts (New Map.empty)) 1
       = Inr \<lparr>Data = [1], Hash = [1, 1]\<rparr>" by code_simp
  show "fst (EraseBlock lengthPrefixed ''j''
            (addBlocks lengthPrefixed tenInserts (New Map.empty))) = None" by code_simp
  show "GetBlockByNumber
        (snd (EraseBlock lengthPrefixed ''j''
               (addBlocks lengthPrefixed tenInserts (New Map.empty)))) 10
       = Inr \<lparr>Data = [10], Hash = [1, 10]\<rparr>" by code_simp
  show "GetBlockByNumber
        (snd (EraseBlock lengthPrefixed ''j''
               (addBlocks lengthPrefixed tenInserts (New Map.empty)))) 1
       = Inr (EmptyBlock lengthPrefixed)" by code_simp
  show "EmptyBlock lengthPrefixed = \<lparr>Data = [0], Hash = [1, 0]\<rparr>" by code_simp
qed

text \<open>
  Claim C10: after a successful \<open>EraseBlock\<close> of a key, the key is absent, so that
  \<open>BlockNumber\<close> of it fails with the not-found error, and the record of the key's
  block number holds the sentinel. Insert ten blocks and then an eleventh under the key
  \<open>1\<close>. \<open>EraseBlock\<close> of \<open>1\<close> succeeds. It parses the first byte of the text
  \<open>11\<close>, deletes the key and writes the sentinel under the number 1, which is the
  byte string of the key: the key is present again, \<open>BlockNumber\<close> of it fails with a
  syntax error, and the record of block 11 still holds its payload.
\<close>

theorem EraseBlock_key_rebound:
  "addBlocks lengthPrefixed (tenInserts @ [(''1'', [11])]) (New Map.empty) ''1''
     = Some (Num ''11'')
   \<and> fst (EraseBlock lengthPrefixed ''1''
            (addBlocks lengthPrefixed (tenInserts @ [(''1'', [11])]) (New Map.empty)))
       = None
   \<and> snd (EraseBlock lengthPrefixed ''1''
            (addBlocks lengthPrefixed (tenInserts @ [(''1'', [11])]) (New Map.empty))) ''1''
       = Some (BlockJSON \<lparr>Data = [0], Hash = [1, 0]\<rparr>)
   \<and> BlockNumber
        (snd (EraseBlock lengthPrefixed ''1''
               (addBlocks lengthPrefixed (tenInserts @ [(''1'', [11])]) (New Map.empty))))
        ''1''
       = Inl ErrSyntax
   \<and> GetBlockByNumber
        (snd (EraseBlock lengthPrefixed ''1''
               (addBlocks lengthPrefixed (tenInserts @ [(''1'', [11])]) (New Map.empty))))
        11
       = Inr \<lparr>Data = [11], Hash = [1, 11]\<rparr>"
proof (intro conjI)
  show "addBlocks lengthPrefixed (tenInserts @ [(''1'', [11])]) (New Map.empty) ''1''
     = Some (Num ''11'')" by code_simp
  show "fst (EraseBlock lengthPrefixed ''1''
            (addBlocks lengthPrefixed (tenInserts @ [(''1'', [11])]) (New Map.empty)))
       = None" by code_simp
  show "snd (EraseBlock lengthPrefixed ''1''
            (addBlocks lengthPrefixed (tenInserts @ [(''1'', [11])]) (New Map.empty))) ''1''
       = Some (BlockJSON \<lparr>Data = [0], Hash = [1, 0]\<rparr>)" by code_simp
  show "BlockNumber
        (snd (EraseBlock lengthPrefixed ''1''
               (addBlocks lengthPrefixed (tenInserts @ [(''1'', [11])]) (New Map.empty))))
        ''1''
       = Inl ErrSyntax" by code_simp
  show "GetBlockByNumber
        (snd (EraseBlock lengthPrefixed ''1''
               (addBlocks lengthPrefixed (tenInserts @ [(''1'', [11])]) (New Map.empty))))
        11
       = Inr \<lparr>Data = [11], Hash = [1, 11]\<rparr>" by code_simp
qed



lemma GetBlockMatrixInfo_other_keys:
  assumes "GetBlockMatrixInfo d = (r, d')" and "k \<noteq> ''info''"
  shows "d' k = d k"
  using assms by (auto simp: GetBlockMatrixInfo_def Let_def split: option.splits)

lemma GetBlockMatrixInfo_absent:
  assumes "GetBlockMatrixInfo d = (Inr info, d')" and "d ''info'' = None"
  shows "Rows info = [[]]" "Cols info = [[]]"
  using assms by (auto simp: GetBlockMatrixInfo_def Let_def)

lemma inRange_singleton: "inRange i [x] \<Longrightarrow> i = 0"
  by (simp add: inRange_def)

text \<open>
  What a successful \<open>EraseBlock\<close> leaves in the store. \<open>BlockNumber\<close> had returned
  a number \<open>n\<close> for the key, and the record under the decimal text of \<open>n\<close> is present
  and holds the sentinel block. If the key is not that decimal text, the key is absent
  afterwards, and \<open>BlockNumber\<close> and \<open>GetBlock\<close> of it fail with the not-found
  error.
\<close>

lemma EraseBlock_removes_key:
  assumes "fst (EraseBlock sha key d) = None"
  shows "\<exists>n. BlockNumber d key = Inr n
       \<and> snd (EraseBlock sha key d) (Itoa n) = Some (BlockJSON (EmptyBlock sha))
       \<and> (key \<noteq> Itoa n \<longrightarrow>
             snd (EraseBlock sha key d) key = None
           \<and> BlockNumber (snd (EraseBlock sha key d)) key = Inl ErrNotFound
           \<and> GetBlock json (snd (EraseBlock sha key d)) key = Inl ErrNotFound)"
proof -
  let ?d' = "snd (EraseBlock sha key d)"
  from assms obtain n info d3 info' where
    bn: "BlockNumber d key = Inr n"
    and g: "GetBlockMatrixInfo ((d(key := None))(Itoa n \<mapsto> BlockJSON (EmptyBlock sha)))
       = (Inr info, d3)"
    and u: "updateBlockMatrixInfo sha info n d3 = Inr (info', ?d')"
    by (rule EraseBlock_success)
  let ?d2 = "(d(key := None))(Itoa n \<mapsto> BlockJSON (EmptyBlock sha))"
  note f = updateBlockMatrixInfo_Inr [OF u]
  have other: "?d' k = ?d2 k" if "k \<noteq> ''info''" for k
  proof -
    have "?d' k = d3 k" using that by (subst f(1)) simp
    also have "\<dots> = ?d2 k" using g that by (rule GetBlockMatrixInfo_other_keys)
    finally show ?thesis .
  qed
  have n0: "0 \<le> n" using BlockNumber_range [OF bn] by simp
  have key: "key \<noteq> ''info''"
  proof
    assume k: "key = ''info''"
    then have "?d2 ''info'' = None" by simp
    then have "Rows info = [[]]" "Cols info = [[]]"
      using GetBlockMatrixInfo_absent [OF g] by simp_all
    then have "locateRow n = 0" "locateCol n = 0"
      using f(4,5) by (simp_all add: inRange_singleton)
    then have "locateBlock n = (0, 0)" by (simp add: locateBlock_def)
    with locateBlock_not_origin [OF n0] show False by simp
  qed
  have sentinel: "?d' (Itoa n) = Some (BlockJSON (EmptyBlock sha))"
    using other [of "Itoa n"] by simp
  have gone: "key \<noteq> Itoa n \<longrightarrow>
             ?d' key = None
           \<and> BlockNumber ?d' key = Inl ErrNotFound
           \<and> GetBlock json ?d' key = Inl ErrNotFound"
  proof
    assume "key \<noteq> Itoa n"
    then have "?d' key = None" using other [OF key] by simp
    then show "?d' key = None
           \<and> BlockNumber ?d' key = Inl ErrNotFound
           \<and> GetBlock json ?d' key = Inl ErrNotFound"
      by (simp add: BlockNumber_def GetBlock_def)
  qed
  from bn sentinel gone show ?thesis by blast
qed

lemma EraseBlock_removes_key_example:
  "fst (EraseBlock lengthPrefixed ''a'' (snd (AddBlock lengthPrefixed ''a'' [1] (New Map.empty))))
     = None
   \<and> BlockNumber (snd (AddBlock lengthPrefixed ''a'' [1] (New Map.empty))) ''a'' = Inr 1
   \<and> ''a'' \<noteq> Itoa 1
   \<and> snd (EraseBlock lengthPrefixed ''a''
            (snd (AddBlock lengthPrefixed ''a'' [1] (New Map.empty)))) (Itoa 1)
       = Some (BlockJSON (EmptyBlock lengthPrefixed))
   \<and> snd (EraseBlock lengthPrefixed ''a''
            (snd (AddBlock lengthPrefixed ''a'' [1] (New Map.empty)))) ''a'' = None
   \<and> BlockNumber
        (snd (EraseBlock lengthPrefixed ''a''
               (snd (AddBlock lengthPrefixed ''a'' [1] (New Map.empty))))) ''a''
       = Inl ErrNotFound
   \<and> GetBlock (\<lambda>v. ''{}'')
        (snd (EraseBlock lengthPrefixed ''a''
               (snd (AddBlock lengthPrefixed ''a'' [1] (New Map.empty))))) ''a''
       = Inl ErrNotFound"
proof -
  let ?d = "snd (AddBlock lengthPrefixed ''a'' [1] (New Map.empty))"
  let ?d' = "snd (EraseBlock lengthPrefixed ''a'' ?d)"
  have h: "fst (EraseBlock lengthPrefixed ''a'' ?d) = None" by code_simp
  have b: "BlockNumber ?d ''a'' = Inr 1" by code_simp
  have k: "''a'' \<noteq> Itoa 1" by code_simp
  from EraseBlock_removes_key [OF h, where json = "\<lambda>v. ''{}''"] obtain n where
    n: "BlockNumber ?d ''a'' = Inr n"
    and s: "?d' (Itoa n) = Some (BlockJSON (EmptyBlock lengthPrefixed))"
    and r: "''a'' \<noteq> Itoa n \<longrightarrow>
             ?d' ''a'' = None
           \<and> BlockNumber ?d' ''a'' = Inl ErrNotFound
           \<and> GetBlock (\<lambda>v. ''{}'') ?d' ''a'' = Inl ErrNotFound"
    by blast
  have n1: "n = 1" using n b by simp
  from r k have "?d' ''a'' = None
           \<and> BlockNumber ?d' ''a'' = Inl ErrNotFound
           \<and> GetBlock (\<lambda>v. ''{}'') ?d' ''a'' = Inl ErrNotFound"
    unfolding n1 by (rule mp)
  with h b k s [unfolded n1] show ?thesis by (intro conjI) simp_all
qed



section \<open>Locality of a successful redaction\<close>

text \<open>What the counters of the loop of \<open>checkValidErase\<close> witness.\<close>


lemma checkLoop_counts:
  "checkLoop info oldR oldC i nr nc = Inr (nr', nc') \<Longrightarrow>
     nr \<le> nr' \<and> nc \<le> nc'
   \<and> (nr < nr' \<longrightarrow> (\<exists>k. i \<le> k \<and> k < info_Size info \<and> oldR ! nat k \<noteq> Rows info ! nat k))
   \<and> (nc < nc' \<longrightarrow> (\<exists>k. i \<le> k \<and> k < info_Size info \<and> oldC ! nat k \<noteq> Cols info ! nat k))"
proof (induction info oldR oldC i nr nc rule: checkLoop.induct)
  case (1 info oldR oldC i nr nc)
  show ?case
  proof (cases "i < info_Size info")
    case False
    with "1.prems" show ?thesis by (subst (asm) checkLoop.simps) simp
  next
    case lt: True
    show ?thesis
    proof (cases "inRange i oldR \<and> inRange i (Rows info)")
      case False
      with "1.prems" lt show ?thesis by (subst (asm) checkLoop.simps) simp
    next
      case rr: True
      show ?thesis
      proof (cases "oldR ! nat i \<noteq> Rows info ! nat i")
        case rowdiff: True
        have "checkLoop info oldR oldC (i + 1) (nr + 1) nc = Inr (nr', nc')"
          using "1.prems" lt rr rowdiff by (subst (asm) checkLoop.simps) simp
        from "1.IH"(1) [OF lt _ rowdiff this] rr
        have "nr + 1 \<le> nr' \<and> nc \<le> nc'
          \<and> (nc < nc' \<longrightarrow> (\<exists>k. i + 1 \<le> k \<and> k < info_Size info
                 \<and> oldC ! nat k \<noteq> Cols info ! nat k))"
          by simp
        then show ?thesis using lt rowdiff by (auto intro: exI [of _ i] dest: order_trans [of i "i + 1", rotated])
      next
        case rowsame: False
        show ?thesis
        proof (cases "inRange i oldC \<and> inRange i (Cols info)")
          case False
          with "1.prems" lt rr rowsame show ?thesis
            by (subst (asm) checkLoop.simps) simp
        next
          case cr: True
          show ?thesis
          proof (cases "oldC ! nat i \<noteq> Cols info ! nat i")
            case coldiff: True
            have "checkLoop info oldR oldC (i + 1) nr (nc + 1) = Inr (nr', nc')"
              using "1.prems" lt rr rowsame cr coldiff by (subst (asm) checkLoop.simps) simp
            from "1.IH"(2) [OF lt _ rowsame _ coldiff this] rr cr
            have "nr \<le> nr' \<and> nc + 1 \<le> nc'
              \<and> (nr < nr' \<longrightarrow> (\<exists>k. i + 1 \<le> k \<and> k < info_Size info
                     \<and> oldR ! nat k \<noteq> Rows info ! nat k))"
              by simp
            then show ?thesis using lt coldiff
              by (auto intro: exI [of _ i] dest: order_trans [of i "i + 1", rotated])
          next
            case colsame: False
            have "checkLoop info oldR oldC (i + 1) nr nc = Inr (nr', nc')"
              using "1.prems" lt rr rowsame cr colsame by (subst (asm) checkLoop.simps) simp
            from "1.IH"(3) [OF lt _ rowsame _ colsame this] rr cr
            have "nr \<le> nr' \<and> nc \<le> nc'
              \<and> (nr < nr' \<longrightarrow> (\<exists>k. i + 1 \<le> k \<and> k < info_Size info
                     \<and> oldR ! nat k \<noteq> Rows info ! nat k))
              \<and> (nc < nc' \<longrightarrow> (\<exists>k. i + 1 \<le> k \<and> k < info_Size info
                     \<and> oldC ! nat k \<noteq> Cols info ! nat k))"
              by simp
            then show ?thesis
              by (auto dest: order_trans [of i "i + 1", rotated])
          qed
        qed
      qed
    qed
  qed
qed



text \<open>
  On success, \<open>EraseBlock\<close> has changed the digest of exactly one row and of exactly
  one column of the metadata it read.
\<close>

lemma EraseBlock_locality:
  assumes "fst (EraseBlock sha key d) = None"
  shows "\<exists>info info' r c.
           fst (GetBlockMatrixInfo d) = Inr info
         \<and> fst (GetBlockMatrixInfo (snd (EraseBlock sha key d))) = Inr info'
         \<and> length (Rows info') = length (Rows info)
         \<and> length (Cols info') = length (Cols info)
         \<and> r < length (Rows info) \<and> c < length (Cols info)
         \<and> (\<forall>k. (Rows info' ! k \<noteq> Rows info ! k) = (k = r))
         \<and> (\<forall>k. (Cols info' ! k \<noteq> Cols info ! k) = (k = c))"
proof -
  let ?d' = "snd (EraseBlock sha key d)"
  from assms obtain n info d3 info' where
    bn: "BlockNumber d key = Inr n"
    and g: "GetBlockMatrixInfo ((d(key := None))(Itoa n \<mapsto> BlockJSON (EmptyBlock sha)))
       = (Inr info, d3)"
    and u: "updateBlockMatrixInfo sha info n d3 = Inr (info', ?d')"
    and ck: "checkValidErase info' (Rows info) (Cols info) = Inr True"
    by (rule EraseBlock_success)
  let ?d2 = "(d(key := None))(Itoa n \<mapsto> BlockJSON (EmptyBlock sha))"
  let ?r = "nat (locateRow n)" and ?c = "nat (locateCol n)"
  note f = updateBlockMatrixInfo_Inr [OF u]
  have n0: "0 \<le> n" using BlockNumber_range [OF bn] by simp
  have present: "?d2 ''info'' \<noteq> None"
  proof
    assume "?d2 ''info'' = None"
    then have "Rows info = [[]]" "Cols info = [[]]"
      using GetBlockMatrixInfo_absent [OF g] by simp_all
    then have "locateRow n = 0" "locateCol n = 0"
      using f(4,5) by (simp_all add: inRange_singleton)
    then have "locateBlock n = (0, 0)" by (simp add: locateBlock_def)
    with locateBlock_not_origin [OF n0] show False by simp
  qed
  then have key: "key \<noteq> ''info''" by auto
  then have same: "d ''info'' = ?d2 ''info''" by simp
  have pre: "fst (GetBlockMatrixInfo d) = Inr info"
    using g present unfolding GetBlockMatrixInfo_def same by (auto split: option.splits)
  have post: "fst (GetBlockMatrixInfo ?d') = Inr info'"
    by (subst f(1)) (simp add: GetBlockMatrixInfo_def)
  have rows: "Rows info' = (Rows info)[?r := Rows info' ! ?r]"
    and cols: "Cols info' = (Cols info)[?c := Cols info' ! ?c]"
    using f(8,9) .
  have lr: "length (Rows info') = length (Rows info)" by (subst rows) simp
  have lc: "length (Cols info') = length (Cols info)" by (subst cols) simp
  have rin: "?r < length (Rows info)" and cin: "?c < length (Cols info)"
    using f(4,5) by (simp_all add: inRange_nat)
  have rsame: "Rows info' ! k = Rows info ! k" if "k \<noteq> ?r" for k
    using that by (subst rows) simp
  have csame: "Cols info' ! k = Cols info ! k" if "k \<noteq> ?c" for k
    using that by (subst cols) simp
  obtain nr nc where cl: "checkLoop info' (Rows info) (Cols info) 0 0 0 = Inr (nr, nc)"
    and one: "nr = 1" "nc = 1"
    using ck by (auto simp: checkValidErase_def split: sum.splits prod.splits)
  from checkLoop_counts [OF cl] one
  obtain k1 k2 where "Rows info ! nat k1 \<noteq> Rows info' ! nat k1"
    "Cols info ! nat k2 \<noteq> Cols info' ! nat k2" by auto
  then have rd: "Rows info' ! ?r \<noteq> Rows info ! ?r" and cd: "Cols info' ! ?c \<noteq> Cols info ! ?c"
    using rsame [of "nat k1"] csame [of "nat k2"] by metis+
  have R: "\<forall>k. (Rows info' ! k \<noteq> Rows info ! k) = (k = ?r)"
    using rd rsame by blast
  have C: "\<forall>k. (Cols info' ! k \<noteq> Cols info ! k) = (k = ?c)"
    using cd csame by blast
  from pre post lr lc rin cin R C show ?thesis by blast
qed



section \<open>Claim about the self-check of redaction\<close>


subsection \<open>The errors of the steps before the verdict\<close>



















end
